theory Spec2Isabelle
  imports Complex_Main "HOL-Library.Log_Nat"
begin
section \<open>JavaScript numbers\<close>

text \<open>
  A JavaScript number is an IEEE double. The scheduler computes with integers, and every
  result of its operations on integers is an integer again or \<open>Infinity\<close>; so the numbers
  are modelled as \<open>int\<close>, each operation rounding its exact result to the nearest double
  as the machine does. The integer \<open>infinity\<close> stands for \<open>Infinity\<close>: every finite
  double is smaller.
\<close>

definition infinity :: int where
  "infinity = 2 ^ 1024"

text \<open>Rounding a natural number to 53 significant bits, to the nearest such number and,
  half way between two, to the one with the even significand.\<close>

definition round53 :: "int \<Rightarrow> int" where
  "round53 n =
     (let e = bitlen n - 53 in
      if e \<le> 0 then n
      else
        let d = 2 ^ nat e; m = n div d; s = n mod d
        in (if d < 2 * s \<or> (d = 2 * s \<and> odd m) then m + 1 else m) * d)"

text \<open>The double nearest to an integer; a magnitude that rounds to \<open>2^1024\<close> or more
  overflows to \<open>Infinity\<close>.\<close>

definition to_double :: "int \<Rightarrow> int" where
  "to_double n = sgn n * (let r = round53 \<bar>n\<bar> in if infinity \<le> r then infinity else r)"

definition js_add :: "int \<Rightarrow> int \<Rightarrow> int" where
  "js_add a b = to_double (a + b)"

definition js_sub :: "int \<Rightarrow> int \<Rightarrow> int" where
  "js_sub a b = to_double (a - b)"

definition js_mul :: "int \<Rightarrow> int \<Rightarrow> int" where
  "js_mul a b = to_double (a * b)"

text \<open>
  The quotient \<open>a / b\<close> of positive integers as a double: \<open>m * 2^e\<close> with \<open>m\<close> the
  quotient scaled into 53 bits and rounded. The exponent is that of the exact quotient:
  \<open>2^(e + 52) \<le> a / b < 2^(e + 53)\<close>.
\<close>

definition quotient_exponent :: "int \<Rightarrow> int \<Rightarrow> int" where
  "quotient_exponent a b =
     (if b \<le> a then bitlen (a div b) - 1 else - bitlen ((b - 1) div a)) - 52"

definition round_quotient :: "int \<Rightarrow> int \<Rightarrow> int \<times> int" where
  "round_quotient a b =
     (let e = quotient_exponent a b;
          num = (if e < 0 then a * 2 ^ nat (- e) else a);
          den = (if e < 0 then b else b * 2 ^ nat e);
          m = num div den; s = num mod den
      in (if den < 2 * s \<or> (den = 2 * s \<and> odd m) then m + 1 else m, e))"

text \<open>\<open>Math.floor(a / b)\<close> for a divisor other than zero: the floor of the rounded
  quotient. A finite number divided by \<open>Infinity\<close> is zero.\<close>

definition js_floor_quotient :: "int \<Rightarrow> int \<Rightarrow> int" where
  "js_floor_quotient a b =
     (if a = 0 \<or> infinity \<le> \<bar>b\<bar> then 0
      else
        let (m, e) = round_quotient \<bar>a\<bar> \<bar>b\<bar>; signed = sgn a * sgn b * m
        in if e < 0 then signed div 2 ^ nat (- e) else signed * 2 ^ nat e)"

text \<open>JavaScript's \<open>%\<close> on finite integers with a divisor other than zero: the exact
  remainder, with the sign of the dividend. With the divisor \<open>Infinity\<close> it is the
  dividend.\<close>

definition js_rem :: "int \<Rightarrow> int \<Rightarrow> int" where
  "js_rem a b = sgn a * (\<bar>a\<bar> mod \<bar>b\<bar>)"

section \<open>Segment scheduler (background.js)\<close>

text \<open>
  The scheduler keeps three module-level variables: \<open>globalTimerState\<close> (an object or
  \<open>null\<close>), \<open>globalIsPaused\<close> and \<open>globalTimerInterval\<close> (an interval handle or
  \<open>null\<close>). The two keys the script writes to \<open>chrome.storage.local\<close> and the
  notifications it creates are part of the modelled state.
\<close>

record timer_state =
  total :: int
  segment :: int
  grace :: int
  fullBlock :: int
  blocks :: int
  remainingTime :: int
  currentBlock :: int
  currentTime :: int
  isWorkTime :: bool
  startTime :: int

text \<open>One constructor for each call of \<open>notify\<close>, carrying the numbers interpolated
  into its title and message.\<close>

datatype notification =
    Session_Started int int int int
  | Break_Time int
  | Session_Complete
  | Final_Segment int
  | Segment_Of int int int

text \<open>
  \<open>globalTimerInterval\<close> is \<open>True\<close> while an interval handle is held.
  \<open>stored_currentTimer\<close> and \<open>stored_isPaused\<close> are the storage keys
  \<open>currentTimer\<close> and \<open>isPaused\<close>: \<open>None\<close> when the key is absent, and
  \<open>Some None\<close> for a stored \<open>null\<close> timer.
\<close>

record scheduler =
  globalTimerState :: "timer_state option"
  globalIsPaused :: bool
  globalTimerInterval :: bool
  stored_currentTimer :: "timer_state option option"
  stored_isPaused :: "bool option"
  notifications :: "notification list"

definition initial_scheduler :: scheduler where
  "initial_scheduler =
     \<lparr>globalTimerState = None, globalIsPaused = False, globalTimerInterval = False,
      stored_currentTimer = None, stored_isPaused = None, notifications = []\<rparr>"

definition notify :: "notification \<Rightarrow> scheduler \<Rightarrow> scheduler" where
  "notify n s = s\<lparr>notifications := notifications s @ [n]\<rparr>"

definition storage_set :: "timer_state option \<Rightarrow> bool \<Rightarrow> scheduler \<Rightarrow> scheduler" where
  "storage_set t p s = s\<lparr>stored_currentTimer := Some t, stored_isPaused := Some p\<rparr>"

definition storage_remove :: "scheduler \<Rightarrow> scheduler" where
  "storage_remove s = s\<lparr>stored_currentTimer := None, stored_isPaused := None\<rparr>"

definition stopBackgroundTimer :: "scheduler \<Rightarrow> scheduler" where
  "stopBackgroundTimer s =
     storage_remove
       (s\<lparr>globalTimerInterval := False, globalTimerState := None, globalIsPaused := False\<rparr>)"

definition pauseBackgroundTimer :: "scheduler \<Rightarrow> scheduler" where
  "pauseBackgroundTimer s = storage_set (globalTimerState s) True (s\<lparr>globalIsPaused := True\<rparr>)"

definition resumeBackgroundTimer :: "scheduler \<Rightarrow> scheduler" where
  "resumeBackgroundTimer s = storage_set (globalTimerState s) False (s\<lparr>globalIsPaused := False\<rparr>)"

text \<open>The trailing \<open>if (currentTime % 10 === 0)\<close> of the interval callback. For a finite
  integer \<open>x % 10 === 0\<close> holds exactly when \<open>x mod 10 = 0\<close>; \<open>Infinity % 10\<close> is
  \<open>NaN\<close>, which equals nothing.\<close>

definition save_every_10 :: "scheduler \<Rightarrow> scheduler" where
  "save_every_10 s =
     (case globalTimerState s of
        None \<Rightarrow> s
      | Some t \<Rightarrow>
          if \<bar>currentTime t\<bar> < infinity \<and> currentTime t mod 10 = 0
          then storage_set (Some t) (globalIsPaused s) s
          else s)"

text \<open>The function passed to \<open>setInterval\<close> in \<open>startBackgroundCountdown\<close>.\<close>

definition interval_callback :: "scheduler \<Rightarrow> scheduler" where
  "interval_callback s =
     (case globalTimerState s of
        None \<Rightarrow> s
      | Some t0 \<Rightarrow>
          if globalIsPaused s then s
          else
            let t = t0\<lparr>currentTime := js_sub (currentTime t0) 1\<rparr> in
            if currentTime t \<le> 0 then
              (if isWorkTime t then
                 (if currentBlock t < js_sub (blocks t) 1 \<or>
                     (currentBlock t = js_sub (blocks t) 1 \<and> remainingTime t > 0)
                  then save_every_10
                         (notify (Break_Time (grace t))
                            (s\<lparr>globalTimerState :=
                                 Some (t\<lparr>isWorkTime := False,
                                         currentTime := js_mul (grace t) 60\<rparr>)\<rparr>))
                  else stopBackgroundTimer
                         (notify Session_Complete (s\<lparr>globalTimerState := Some t\<rparr>)))
               else
                 (let t' = t\<lparr>currentBlock := js_add (currentBlock t) 1, isWorkTime := True\<rparr> in
                  if currentBlock t' \<ge> blocks t' then
                    (if remainingTime t' > 0
                     then save_every_10
                            (notify (Final_Segment (remainingTime t'))
                               (s\<lparr>globalTimerState :=
                                    Some (t'\<lparr>currentTime := js_mul (remainingTime t') 60\<rparr>)\<rparr>))
                     else stopBackgroundTimer
                            (notify Session_Complete (s\<lparr>globalTimerState := Some t'\<rparr>)))
                  else save_every_10
                         (notify (Segment_Of (js_add (currentBlock t') 1) (blocks t')
                                    (segment t'))
                            (s\<lparr>globalTimerState :=
                                 Some (t'\<lparr>currentTime := js_mul (segment t') 60\<rparr>)\<rparr>))))
            else save_every_10 (s\<lparr>globalTimerState := Some t\<rparr>))"

text \<open>One firing of the interval timer: the callback runs only while a handle is held
  (\<open>clearInterval\<close> cancels it).\<close>

definition tick :: "scheduler \<Rightarrow> scheduler" where
  "tick s = (if globalTimerInterval s then interval_callback s else s)"

primrec ticks :: "nat \<Rightarrow> scheduler \<Rightarrow> scheduler" where
  "ticks 0 s = s"
| "ticks (Suc n) s = ticks n (tick s)"

definition startBackgroundCountdown :: "scheduler \<Rightarrow> scheduler" where
  "startBackgroundCountdown s = s\<lparr>globalTimerInterval := True\<rparr>"

text \<open>
  \<open>startSegmentedTimer(total, segment, grace)\<close> on arguments that are finite integers;
  \<open>now\<close> is the value of \<open>Date.now()\<close>. For \<open>segment + grace = 0\<close> JavaScript computes
  \<open>Infinity\<close> or \<open>NaN\<close> for \<open>blocks\<close> and \<open>NaN\<close> for \<open>remainingTime\<close>: the model
  returns \<open>None\<close> there. \<open>NaN\<close> is not represented: a total of \<open>Infinity\<close>, for which
  the remainder is \<open>NaN\<close>, is outside the model.
\<close>

definition startSegmentedTimer ::
  "int \<Rightarrow> int \<Rightarrow> int \<Rightarrow> int \<Rightarrow> scheduler \<Rightarrow> scheduler option" where
  "startSegmentedTimer now tot seg gr s =
     (if js_add seg gr = 0 then None
      else
        let s1 = (if globalTimerInterval s then s\<lparr>globalTimerInterval := False\<rparr> else s);
            t = \<lparr>total = tot, segment = seg, grace = gr, fullBlock = js_add seg gr,
                 blocks = js_floor_quotient tot (js_add seg gr),
                 remainingTime = js_rem tot (js_add seg gr),
                 currentBlock = 0, currentTime = js_mul seg 60, isWorkTime = True,
                 startTime = now\<rparr>;
            s2 = s1\<lparr>globalTimerState := Some t\<rparr>;
            s3 = s2\<lparr>globalIsPaused := False\<rparr>;
            s4 = storage_set (Some t) False s3;
            s5 = notify (Session_Started tot seg gr (blocks t)) s4
        in Some (startBackgroundCountdown s5))"

text \<open>The messages of \<open>chrome.runtime.onMessage\<close> and the values passed to
  \<open>sendResponse\<close>.\<close>

datatype message =
    START_TIMER int int int
  | PAUSE_TIMER
  | RESUME_TIMER
  | STOP_TIMER
  | GET_TIMER_STATE

datatype response =
    Ack bool
  | Snapshot "timer_state option" bool

text \<open>
  The listener. Nothing in the modelled \<open>startSegmentedTimer\<close> throws, so the
  \<open>catch\<close> branch (\<open>success: false\<close>) has no counterpart; the result is \<open>None\<close> only
  where \<open>startSegmentedTimer\<close> is.
\<close>

fun onMessage :: "int \<Rightarrow> message \<Rightarrow> scheduler \<Rightarrow> (response \<times> scheduler) option" where
  "onMessage now (START_TIMER tot seg gr) s =
     (case startSegmentedTimer now tot seg gr s of
        None \<Rightarrow> None
      | Some s' \<Rightarrow> Some (Ack True, s'))"
| "onMessage now PAUSE_TIMER s = Some (Ack True, pauseBackgroundTimer s)"
| "onMessage now RESUME_TIMER s = Some (Ack True, resumeBackgroundTimer s)"
| "onMessage now STOP_TIMER s = Some (Ack True, stopBackgroundTimer s)"
| "onMessage now GET_TIMER_STATE s = Some (Snapshot (globalTimerState s) (globalIsPaused s), s)"

definition valid_config :: "int \<Rightarrow> int \<Rightarrow> int \<Rightarrow> bool" where
  "valid_config tot seg gr \<longleftrightarrow> 0 < tot \<and> 0 < seg \<and> seg < tot \<and> 0 \<le> gr"

text \<open>The configurations whose products the scheduler computes exactly: the session and
  a break, in seconds, are at most \<open>2^53\<close>.\<close>

definition exact_config :: "int \<Rightarrow> int \<Rightarrow> int \<Rightarrow> bool" where
  "exact_config tot seg gr \<longleftrightarrow> tot * 60 \<le> 2 ^ 53 \<and> gr * 60 \<le> 2 ^ 53"

subsection \<open>Reachable schedulers and the quantities used in the proofs\<close>

fun valid_message :: "message \<Rightarrow> bool" where
  "valid_message (START_TIMER tot seg gr) = valid_config tot seg gr"
| "valid_message _ = True"

text \<open>The schedulers reachable from the freshly loaded script by messages (every start
  with a valid configuration) and ticks.\<close>

inductive reachable :: "scheduler \<Rightarrow> bool" where
  reachable_init: "reachable initial_scheduler"
| reachable_message:
    "reachable s \<Longrightarrow> valid_message m \<Longrightarrow> onMessage now m s = Some (r, s') \<Longrightarrow> reachable s'"
| reachable_tick: "reachable s \<Longrightarrow> reachable (tick s)"

text \<open>The timer state a tick leaves behind when the callback runs to its end on timer
  state \<open>t0\<close> (\<open>None\<close>: the session was stopped). Lemma \<open>tick_state_proj\<close> relates it to
  \<open>tick\<close>.\<close>

definition advance :: "timer_state \<Rightarrow> timer_state option" where
  "advance t0 =
     (let t = t0\<lparr>currentTime := js_sub (currentTime t0) 1\<rparr> in
      if currentTime t \<le> 0 then
        (if isWorkTime t then
           (if currentBlock t < js_sub (blocks t) 1 \<or>
               (currentBlock t = js_sub (blocks t) 1 \<and> remainingTime t > 0)
            then Some (t\<lparr>isWorkTime := False, currentTime := js_mul (grace t) 60\<rparr>)
            else None)
         else
           (let t' = t\<lparr>currentBlock := js_add (currentBlock t) 1, isWorkTime := True\<rparr> in
            if currentBlock t' \<ge> blocks t' then
              (if remainingTime t' > 0
               then Some (t'\<lparr>currentTime := js_mul (remainingTime t') 60\<rparr>)
               else None)
            else Some (t'\<lparr>currentTime := js_mul (segment t') 60\<rparr>)))
      else Some t)"

text \<open>The invariant of the timer state of a session started with a valid configuration.
  The block index is counted up by one from zero, so it never passes \<open>2^53\<close>, where
  adding one no longer changes a double.\<close>

definition session_inv :: "timer_state \<Rightarrow> bool" where
  "session_inv t \<longleftrightarrow>
     0 < segment t \<and> 0 \<le> grace t \<and> 0 \<le> blocks t \<and> 0 \<le> remainingTime t \<and>
     0 \<le> currentBlock t \<and> currentBlock t \<le> blocks t \<and> currentBlock t \<le> 2 ^ 53 \<and>
     (if isWorkTime t
      then 0 < currentTime t
      else 0 \<le> currentTime t \<and> currentBlock t < blocks t \<and>
           (currentBlock t + 1 < blocks t \<or> 0 < remainingTime t))"

definition sched_inv :: "scheduler \<Rightarrow> bool" where
  "sched_inv s \<longleftrightarrow>
     (case globalTimerState s of
        None \<Rightarrow> True
      | Some t \<Rightarrow> session_inv t \<and> globalTimerInterval s)"

definition running :: "scheduler \<Rightarrow> timer_state \<Rightarrow> bool" where
  "running s t \<longleftrightarrow>
     globalTimerInterval s \<and> \<not> globalIsPaused s \<and> globalTimerState s = Some t"

text \<open>The invariant of a session whose configuration is in the exact range: in
  addition, every number the callback computes from the state is at most \<open>2^53\<close>.\<close>

definition exact_inv :: "timer_state \<Rightarrow> bool" where
  "exact_inv t \<longleftrightarrow>
     session_inv t \<and>
     segment t * 60 \<le> 2 ^ 53 \<and> grace t * 60 \<le> 2 ^ 53 \<and> remainingTime t * 60 \<le> 2 ^ 53 \<and>
     blocks t \<le> 2 ^ 53 \<and> currentTime t \<le> 2 ^ 53"

text \<open>
  The number of ticks a running session in the exact range still needs before it is
  stopped: a phase holding \<open>c\<close> seconds ends at the tick that brings the counter to zero or
  below, so it takes \<open>max 1 c\<close> ticks (a break of zero minutes still takes one tick).
\<close>

definition ticks_left :: "timer_state \<Rightarrow> int" where
  "ticks_left t =
     (let G = max 1 (grace t * 60);
          P = segment t * 60 + G;
          tail = (if 0 < remainingTime t then G + remainingTime t * 60 else 0);
          k = blocks t - 1 - currentBlock t;
          N = max 1 (currentTime t)
      in if isWorkTime t
         then (if currentBlock t < blocks t then N + k * P + tail else N)
         else N + k * P - G + tail)"

text \<open>A session of two minutes in one-minute segments with one-minute breaks, one second
  before its only work segment ends; and a session paused after ten seconds.\<close>

definition last_second_example :: scheduler where
  "last_second_example = ticks 59 (the (startSegmentedTimer 0 2 1 1 initial_scheduler))"

definition paused_example :: scheduler where
  "paused_example =
     pauseBackgroundTimer (ticks 10 (the (startSegmentedTimer 0 50 20 5 initial_scheduler)))"

section \<open>The popup's start button (popup script)\<close>

text \<open>
  The click handler reads the three input fields with \<open>parseInt\<close>; its arguments here
  are the three results, \<open>None\<close> for \<open>NaN\<close>. \<open>!total\<close> holds for \<open>NaN\<close> and for \<open>0\<close>,
  and every comparison with \<open>NaN\<close> is false. The handler either alerts and returns, or
  goes on to send \<open>START_TIMER\<close> with the three values.
\<close>

datatype click_outcome =
    Alerted string
  | Sent int int "int option"

definition startBtn_click :: "int option \<Rightarrow> int option \<Rightarrow> int option \<Rightarrow> click_outcome" where
  "startBtn_click total_field segment_field grace_field =
     (case total_field of
        None \<Rightarrow> Alerted ''Please enter a valid total time (greater than 0)''
      | Some tot \<Rightarrow>
          if tot = 0 \<or> tot \<le> 0
          then Alerted ''Please enter a valid total time (greater than 0)''
          else
            (case segment_field of
               None \<Rightarrow> Alerted ''Please enter a valid segment length (greater than 0)''
             | Some seg \<Rightarrow>
                 if seg = 0 \<or> seg \<le> 0
                 then Alerted ''Please enter a valid segment length (greater than 0)''
                 else if (case grace_field of None \<Rightarrow> False | Some gr \<Rightarrow> gr < 0)
                 then Alerted ''Grace period cannot be negative''
                 else if seg \<ge> tot
                 then Alerted ''Segment length must be less than total time''
                 else Sent tot seg grace_field))"

text \<open>
  A click followed by the delivery of the message it sends, if any, to the scheduler.
  A \<open>NaN\<close> grace passes the handler's checks; the integer model of the scheduler does
  not follow that message (\<open>None\<close>).
\<close>

definition click_start ::
  "int \<Rightarrow> int option \<Rightarrow> int option \<Rightarrow> int option \<Rightarrow> scheduler \<Rightarrow> scheduler option" where
  "click_start now total_field segment_field grace_field s =
     (case startBtn_click total_field segment_field grace_field of
        Alerted _ \<Rightarrow> Some s
      | Sent tot seg (Some gr) \<Rightarrow> map_option snd (onMessage now (START_TIMER tot seg gr) s)
      | Sent tot seg None \<Rightarrow> None)"
text \<open>A session outside the exact range: its countdown starts at a double above \<open>2^54\<close>,
  where the doubles are four apart.\<close>

definition rounded_example :: timer_state where
  "rounded_example =
     \<lparr>total = 300239975158035, segment = 300239975158034, grace = 1,
      fullBlock = 300239975158035, blocks = 1, remainingTime = 0, currentBlock = 0,
      currentTime = 18014398509482040, isWorkTime = True, startTime = 0\<rparr>"

section \<open>Dream analysis gateway (API server)\<close>

text \<open>
  JavaScript values as they come out of \<open>JSON.parse\<close>. A number is a finite double,
  which is a real number; a string is its sequence of code units; an object is the list
  of its own properties, in insertion order and with distinct keys.
\<close>

datatype json =
    JNull
  | JBool bool
  | JNum real
  | JStr string
  | JArr "json list"
  | JObj "(string \<times> json) list"

text \<open>Reading a property: \<open>None\<close> is \<open>undefined\<close>.\<close>

fun field :: "string \<Rightarrow> json \<Rightarrow> json option" where
  "field k (JObj kv) = map_of kv k"
| "field k _ = None"

fun keys :: "json \<Rightarrow> string list" where
  "keys (JObj kv) = map fst kv"
| "keys _ = []"

definition jstrs :: "string list \<Rightarrow> json" where
  "jstrs xs = JArr (map JStr xs)"

text \<open>\<open>Array.prototype.join\<close> on strings.\<close>

fun join :: "string \<Rightarrow> string list \<Rightarrow> string" where
  "join sep [] = []"
| "join sep [x] = x"
| "join sep (x # y # ys) = x @ sep @ join sep (y # ys)"

fun is_string :: "json \<Rightarrow> bool" where
  "is_string (JStr _) = True"
| "is_string _ = False"

fun is_number :: "json \<Rightarrow> bool" where
  "is_number (JNum _) = True"
| "is_number _ = False"

fun is_boolean :: "json \<Rightarrow> bool" where
  "is_boolean (JBool _) = True"
| "is_boolean _ = False"

fun is_string_array :: "json \<Rightarrow> bool" where
  "is_string_array (JArr xs) = list_all is_string xs"
| "is_string_array _ = False"

text \<open>
  A Zod issue, with the path and message the handler prints. The messages of the two
  length checks are given in the schema; the message of a type mismatch is the
  library's, taken as the parameter \<open>type_message expected received\<close>.
\<close>

datatype zod_issue = Issue (path: "string list") (message: string)

text \<open>\<open>z.string().min(20, \<dots>).max(2000, \<dots>)\<close> on the property \<open>dreamText\<close>.\<close>

definition dreamText_issues ::
  "(string \<Rightarrow> json option \<Rightarrow> string) \<Rightarrow> json option \<Rightarrow> zod_issue list" where
  "dreamText_issues type_message v =
     (case v of
        Some (JStr txt) \<Rightarrow>
          (if length txt < 20
           then [Issue [''dreamText''] ''Dream text must be at least 20 characters'']
           else []) @
          (if length txt > 2000
           then [Issue [''dreamText''] ''Dream text cannot exceed 2000 characters'']
           else [])
      | _ \<Rightarrow> [Issue [''dreamText''] (type_message ''string'' v)])"

text \<open>\<open>z.string().optional()\<close> and \<open>z.number().optional()\<close> on a property.\<close>

definition optional_issues ::
  "(string \<Rightarrow> json option \<Rightarrow> string) \<Rightarrow> string \<Rightarrow> string \<Rightarrow> (json \<Rightarrow> bool) \<Rightarrow>
     json option \<Rightarrow> zod_issue list" where
  "optional_issues type_message key expected ok v =
     (case v of
        None \<Rightarrow> []
      | Some j \<Rightarrow> if ok j then [] else [Issue [key] (type_message expected v)])"

text \<open>\<open>DreamAnalysisSchema.safeParse(req.body)\<close>: the issues, or the validated
  \<open>dreamText\<close> (the only property the handler uses afterwards).\<close>

definition DreamAnalysisSchema_safeParse ::
  "(string \<Rightarrow> json option \<Rightarrow> string) \<Rightarrow> json option \<Rightarrow> zod_issue list + string" where
  "DreamAnalysisSchema_safeParse type_message body =
     (case body of
        Some (JObj kv) \<Rightarrow>
          (let issues =
                 dreamText_issues type_message (map_of kv ''dreamText'') @
                 optional_issues type_message ''userId'' ''string'' is_string
                   (map_of kv ''userId'') @
                 optional_issues type_message ''timestamp'' ''number'' is_number
                   (map_of kv ''timestamp'')
           in case (issues, map_of kv ''dreamText'') of
                ([], Some (JStr txt)) \<Rightarrow> Inr txt
              | _ \<Rightarrow> Inl issues)
      | _ \<Rightarrow> Inl [Issue [] (type_message ''object'' body)])"

text \<open>The inline schema applied to the parsed completion: on success the five validated
  properties, unknown ones stripped.\<close>

definition analysis_safeParse :: "json \<Rightarrow> (string \<times> json) list option" where
  "analysis_safeParse j =
     (case (field ''emotions'' j, field ''themes'' j, field ''interpretation'' j,
            field ''symbols'' j, field ''confidence'' j) of
        (Some e, Some th, Some (JStr i), Some sy, Some (JNum c)) \<Rightarrow>
          if is_string_array e \<and> is_string_array th \<and> is_string_array sy \<and>
             0 \<le> c \<and> c \<le> 1
          then Some [(''emotions'', e), (''themes'', th), (''interpretation'', JStr i),
                     (''symbols'', sy), (''confidence'', JNum c)]
          else None
      | _ \<Rightarrow> None)"

text \<open>\<open>DreamAnalysisResponseSchema.safeParse(response).success\<close>.\<close>

definition data_ok :: "json \<Rightarrow> bool" where
  "data_ok d =
     (case (field ''emotions'' d, field ''themes'' d, field ''interpretation'' d,
            field ''symbols'' d, field ''confidence'' d, field ''timestamp'' d) of
        (Some e, Some th, Some (JStr i), Some sy, Some (JNum c), Some (JNum ts)) \<Rightarrow>
          is_string_array e \<and> is_string_array th \<and> is_string_array sy \<and> 0 \<le> c \<and> c \<le> 1
      | _ \<Rightarrow> False)"

definition DreamAnalysisResponseSchema_ok :: "json \<Rightarrow> bool" where
  "DreamAnalysisResponseSchema_ok r =
     ((case field ''success'' r of Some (JBool b) \<Rightarrow> True | _ \<Rightarrow> False) \<and>
      (case field ''data'' r of None \<Rightarrow> True | Some d \<Rightarrow> data_ok d) \<and>
      (case field ''error'' r of None \<Rightarrow> True | Some e \<Rightarrow> is_string e) \<and>
      (case field ''requestId'' r of None \<Rightarrow> True | Some i \<Rightarrow> is_string i))"

text \<open>
  What \<open>openai.chat.completions.create\<close> does: the promise rejects with an error whose
  \<open>code\<close> is given (\<open>None\<close>: no code), or it resolves with the listed choices, each given
  by its \<open>message.content\<close> (\<open>None\<close>: \<open>null\<close>).
\<close>

datatype completion_result =
    Completion_Error "string option"
  | Completion "string option list"

text \<open>
  What the handler takes from its surroundings: the request id it computes from the clock
  and \<open>Math.random\<close>, \<open>Date.now()\<close>, Zod's message for a type mismatch, \<open>JSON.parse\<close>
  (\<open>None\<close>: it throws) and the completion service as a function of the user message.
\<close>

record gateway_env =
  requestId :: string
  date_now :: int
  type_message :: "string \<Rightarrow> json option \<Rightarrow> string"
  json_parse :: "string \<Rightarrow> json option"
  create_completion :: "string \<Rightarrow> completion_result"

record http_response =
  status :: nat
  body :: json

definition failure :: "nat \<Rightarrow> string \<Rightarrow> string \<Rightarrow> http_response" where
  "failure code msg rid =
     \<lparr>status = code,
      body = JObj [(''success'', JBool False), (''error'', JStr msg), (''requestId'', JStr rid)]\<rparr>"

definition render_issue :: "zod_issue \<Rightarrow> string" where
  "render_issue err = join ''.'' (path err) @ '': '' @ message err"

text \<open>
  The handler of \<open>POST /api/analyzeDream\<close>, after the rate limiter. It returns the
  response and the user messages sent to the completion service, in order.
  \<open>JSON.parse(null)\<close> is \<open>null\<close>; reading \<open>choices[0].message\<close> of an empty list throws
  inside the inner \<open>try\<close>.
\<close>

definition analyzeDream :: "gateway_env \<Rightarrow> json option \<Rightarrow> http_response \<times> string list" where
  "analyzeDream env req_body =
     (case DreamAnalysisSchema_safeParse (type_message env) req_body of
        Inl errors \<Rightarrow>
          (failure 400 (''Validation failed: '' @ join '', '' (map render_issue errors))
             (requestId env), [])
      | Inr dreamText \<Rightarrow>
          (let user_message = ''Analyze this dream: '' @ dreamText in
           case create_completion env user_message of
             Completion_Error code \<Rightarrow>
               (if code = Some ''insufficient_quota''
                then failure 429 ''API quota exceeded. Please try again later.'' (requestId env)
                else if code = Some ''rate_limit_exceeded''
                then failure 429 ''Rate limit exceeded. Please try again in a moment.''
                       (requestId env)
                else failure 500 ''Internal server error during dream analysis''
                       (requestId env),
                [user_message])
           | Completion choices \<Rightarrow>
               (case (case choices of
                        [] \<Rightarrow> None
                      | None # _ \<Rightarrow> Some JNull
                      | Some content # _ \<Rightarrow> json_parse env content) of
                  None \<Rightarrow>
                    (failure 500 ''Failed to parse dream analysis response'' (requestId env),
                     [user_message])
                | Some analysisData \<Rightarrow>
                    (case analysis_safeParse analysisData of
                       None \<Rightarrow>
                         (failure 500 ''Invalid dream analysis response format''
                            (requestId env),
                          [user_message])
                     | Some data \<Rightarrow>
                         (let response =
                                JObj [(''success'', JBool True),
                                      (''data'',
                                         JObj (data @
                                               [(''timestamp'', JNum (of_int (date_now env)))])),
                                      (''requestId'', JStr (requestId env))]
                          in if \<not> DreamAnalysisResponseSchema_ok response
                             then (failure 500 ''Response validation failed'' (requestId env),
                                   [user_message])
                             else (\<lparr>status = 200, body = response\<rparr>, [user_message]))))))"

section \<open>Local fallback analysis (popup script)\<close>

text \<open>
  The dream text is a JavaScript string: a sequence of UTF-16 code units, here natural
  numbers. \<open>units\<close> gives the code units of a string literal of the script, whose
  characters are all ASCII.
\<close>

definition units :: "string \<Rightarrow> nat list" where
  "units s = map of_char s"

text \<open>
  \<open>toLowerCase\<close> replaces each character by its lower case as Unicode defines it. Three
  kinds of character have a lower case with an ASCII letter in it: the capitals \<open>A\<close> to
  \<open>Z\<close>, the Kelvin sign U+212A (lower case \<open>k\<close>) and the capital I with dot above U+0130
  (lower case \<open>i\<close> followed by the combining dot U+0307). Every other ASCII character is
  its own lower case. What becomes of the remaining units is decided by the Unicode tables
  of the runtime, a parameter of the model: from the units before, the unit and the units
  after (a surrogate belongs with its neighbour, and a capital sigma is lowered according
  to its place in the word) to the units that replace it.
\<close>

type_synonym unicode_tables = "nat list \<Rightarrow> nat \<Rightarrow> nat list \<Rightarrow> nat list"

definition lower_unit :: "unicode_tables \<Rightarrow> nat list \<Rightarrow> nat \<Rightarrow> nat list \<Rightarrow> nat list" where
  "lower_unit tables before u after =
     (if 65 \<le> u \<and> u \<le> 90 then [u + 32]
      else if u < 128 then [u]
      else if u = 0x130 then [0x69, 0x307]
      else if u = 0x212A then [0x6B]
      else tables before u after)"

fun lower_from :: "unicode_tables \<Rightarrow> nat list \<Rightarrow> nat list \<Rightarrow> nat list" where
  "lower_from tables before [] = []"
| "lower_from tables before (u # after) =
     lower_unit tables before u after @ lower_from tables (before @ [u]) after"

definition toLowerCase :: "unicode_tables \<Rightarrow> nat list \<Rightarrow> nat list" where
  "toLowerCase tables s = lower_from tables [] s"

text \<open>What the tables of Unicode guarantee for the units they decide: a unit outside
  ASCII is replaced by at least one unit, and by none of ASCII.\<close>

definition outside_ascii :: "unicode_tables \<Rightarrow> bool" where
  "outside_ascii tables \<longleftrightarrow>
     (\<forall>before u after. 128 \<le> u \<longrightarrow>
        tables before u after \<noteq> [] \<and> (\<forall>x\<in>set (tables before u after). 128 \<le> x))"

text \<open>\<open>js_includes s w\<close> is \<open>s.includes(w)\<close>.\<close>

fun starts_with :: "nat list \<Rightarrow> nat list \<Rightarrow> bool" where
  "starts_with s [] = True"
| "starts_with [] (w # ws) = False"
| "starts_with (c # cs) (w # ws) = (c = w \<and> starts_with cs ws)"

fun js_includes :: "nat list \<Rightarrow> nat list \<Rightarrow> bool" where
  "js_includes [] w = (w = [])"
| "js_includes (c # cs) w = (starts_with (c # cs) w \<or> js_includes cs w)"

definition emotionWords :: "(string \<times> string list) list" where
  "emotionWords =
     [(''fear'', [''scared'', ''afraid'', ''terrified'', ''frightened'', ''panic'']),
      (''joy'', [''happy'', ''excited'', ''elated'', ''cheerful'', ''delighted'']),
      (''sadness'', [''sad'', ''depressed'', ''crying'', ''tears'', ''mourning'']),
      (''anger'', [''angry'', ''mad'', ''furious'', ''rage'', ''hostile'']),
      (''anxiety'', [''worried'', ''nervous'', ''anxious'', ''stressed'', ''uneasy''])]"

definition themeWords :: "(string \<times> string list) list" where
  "themeWords =
     [(''flying'', [''flying'', ''soaring'', ''airplane'', ''wings'', ''sky'']),
      (''falling'', [''falling'', ''dropping'', ''plunging'', ''descending'']),
      (''chase'', [''chasing'', ''running'', ''pursuing'', ''escaping'']),
      (''water'', [''water'', ''ocean'', ''swimming'', ''drowning'', ''waves'']),
      (''home'', [''home'', ''house'', ''family'', ''childhood'', ''room''])]"

text \<open>The \<open>forEach\<close> over \<open>Object.entries\<close> of a word table: the categories with a word
  that the lower-cased text includes, in table order.\<close>

definition detect ::
  "unicode_tables \<Rightarrow> (string \<times> string list) list \<Rightarrow> nat list \<Rightarrow> string list" where
  "detect tables table dreamText =
     map fst (filter (\<lambda>entry. list_ex (\<lambda>word. js_includes (toLowerCase tables dreamText)
                                                   (units word))
                                (snd entry)) table)"

definition interpretations :: "(string \<times> string) list" where
  "interpretations =
     [(''fear'', ''This dream may reflect underlying anxieties or concerns in your waking life.''),
      (''joy'', ''This dream suggests positive emotions and a sense of well-being.''),
      (''sadness'', ''This dream may indicate processing of difficult emotions or experiences.''),
      (''anger'', ''This dream could represent unresolved conflicts or frustrations.''),
      (''anxiety'', ''This dream may reflect stress or worry about current life situations.''),
      (''flying'', ''Flying dreams often represent freedom, ambition, or a desire to escape limitations.''),
      (''falling'', ''Falling dreams may indicate feelings of losing control or insecurity.''),
      (''chase'', ''Being chased in dreams often represents avoidance of something in waking life.''),
      (''water'', ''Water in dreams can symbolize emotions, cleansing, or life transitions.''),
      (''home'', ''Dreams about home often relate to security, identity, or childhood memories.'')]"

definition generateInterpretation :: "string list \<Rightarrow> string list \<Rightarrow> string" where
  "generateInterpretation emotions themes =
     (let relevantInterpretations =
            List.map_filter (\<lambda>item. map_of interpretations item) (emotions @ themes)
      in ''Dream analysis suggests: '' @
         (if length relevantInterpretations > 0
          then join '' '' relevantInterpretations
          else ''This dream may reflect your subconscious processing of daily experiences.''))"

definition commonSymbols :: "string list" where
  "commonSymbols =
     [''house'', ''car'', ''animal'', ''person'', ''tree'', ''water'', ''fire'', ''door'',
      ''window'']"

definition extractSymbols :: "unicode_tables \<Rightarrow> nat list \<Rightarrow> string list" where
  "extractSymbols tables dreamText =
     take 3 (filter (\<lambda>symbol. js_includes (toLowerCase tables dreamText) (units symbol))
               commonSymbols)"

text \<open>\<open>analyzeDreamLocally(dreamText)\<close>; \<open>now\<close> is \<open>Date.now()\<close>. The two-second delay
  and the unused local \<open>words\<close> have no effect on the result.\<close>

definition analyzeDreamLocally :: "unicode_tables \<Rightarrow> int \<Rightarrow> nat list \<Rightarrow> json" where
  "analyzeDreamLocally tables now dreamText =
     (let emotions = detect tables emotionWords dreamText;
          themes = detect tables themeWords dreamText
      in JObj [(''emotions'', jstrs (if length emotions > 0 then emotions else [''neutral''])),
               (''themes'', jstrs (if length themes > 0 then themes else [''general''])),
               (''interpretation'', JStr (generateInterpretation emotions themes)),
               (''symbols'', jstrs (extractSymbols tables dreamText)),
               (''timestamp'', JNum (of_int now))])"

text \<open>
  The spec's reading of a keyword match, stated on the text itself: the keyword occurs in
  the text case-insensitively when some run of consecutive units of the text spells it,
  each unit being the keyword's letter in either case. A unit is a lower-case letter in
  either case when it is that letter or an upper-case character of which the letter is
  the lower case: its capital (32 below it) or, for \<open>k\<close>, the Kelvin sign U+212A. The
  capital I with dot above is no case of \<open>i\<close>: its lower case is \<open>i\<close> with a combining
  dot.
\<close>

definition same_letter :: "nat \<Rightarrow> char \<Rightarrow> bool" where
  "same_letter u c \<longleftrightarrow>
     u = of_char c \<or>
     (97 \<le> (of_char c :: nat) \<and> (of_char c :: nat) \<le> 122 \<and>
      (u + 32 = of_char c \<or> (c = CHR ''k'' \<and> u = 0x212A)))"

fun spelled_at :: "nat list \<Rightarrow> string \<Rightarrow> bool" where
  "spelled_at us [] = True"
| "spelled_at [] (c # cs) = False"
| "spelled_at (u # us) (c # cs) = (same_letter u c \<and> spelled_at us cs)"

fun occurs_ci :: "string \<Rightarrow> nat list \<Rightarrow> bool" where
  "occurs_ci word [] = (word = [])"
| "occurs_ci word (u # us) = (spelled_at (u # us) word \<or> occurs_ci word us)"

text \<open>The keywords of the tables are words of lower-case letters, none ending in \<open>i\<close>.\<close>

definition keyword :: "string \<Rightarrow> bool" where
  "keyword w \<longleftrightarrow>
     w \<noteq> [] \<and> list_all (\<lambda>c. 97 \<le> (of_char c :: nat) \<and> (of_char c :: nat) \<le> 122) w \<and>
     last w \<noteq> CHR ''i''"

text \<open>
  An environment for examples. Its \<open>JSON.parse\<close> is given on the texts the examples
  use: a complete analysis, an object lacking four of the five properties, and text that
  is not JSON.
\<close>

definition complete_text :: string where
  \<open>complete_text =
     ''{"emotions":["joy"],"themes":["flying"],"interpretation":"A dream of freedom.","symbols":["landscape"],"confidence":0.5}''\<close>

definition partial_text :: string where
  \<open>partial_text = ''{"emotions":["joy"]}''\<close>

definition example_parse :: "string \<Rightarrow> json option" where
  "example_parse content =
     (if content = complete_text
      then Some (JObj [(''emotions'', jstrs [''joy'']), (''themes'', jstrs [''flying'']),
                       (''interpretation'', JStr ''A dream of freedom.''),
                       (''symbols'', jstrs [''landscape'']), (''confidence'', JNum (1 / 2))])
      else if content = partial_text
      then Some (JObj [(''emotions'', jstrs [''joy''])])
      else None)"

definition example_env :: "string \<Rightarrow> gateway_env" where
  "example_env answer =
     \<lparr>requestId = ''req_1_abc'', date_now = 1,
      type_message = (\<lambda>expected received. ''Invalid input''),
      json_parse = example_parse,
      create_completion = (\<lambda>user_message. Completion [Some answer])\<rparr>"

definition example_dream :: string where
  "example_dream = ''I was flying over a beautiful landscape and felt free''"

text \<open>Tables for the examples: they lower the capital E with acute accent U+00C9 to
  U+00E9 and leave every other unit as it is.\<close>

definition example_tables :: unicode_tables where
  "example_tables before u after = (if u = 0xC9 then [0xE9] else [u])"

text \<open>A text with capitals inside a keyword, and with the Kelvin sign for the \<open>k\<close> of
  \<open>sky\<close>.\<close>

definition capitals_example :: "nat list" where
  "capitals_example = units ''We were HAPPY under the S'' @ [0x212A] @ units ''Y''"
section \<open>Properties of the numbers\<close>

lemma bitlen_le_53: "0 \<le> n \<Longrightarrow> n \<le> 2 ^ 53 - 1 \<Longrightarrow> bitlen n \<le> 53"
proof (cases "n = 0")
  case True then show ?thesis by simp
next
  case False
  assume "0 \<le> n" "n \<le> 2 ^ 53 - 1"
  with False have pos: "0 < n" by simp
  show ?thesis
  proof (rule ccontr)
    assume "\<not> bitlen n \<le> 53"
    then have "54 \<le> bitlen n" by simp
    then have "(53::nat) \<le> nat (bitlen n - 1)" by simp
    then have "(2::int) ^ 53 \<le> 2 ^ nat (bitlen n - 1)" by (rule power_increasing) simp
    also have "\<dots> \<le> n" using bitlen_bounds [OF pos] by simp
    finally show False using \<open>n \<le> 2 ^ 53 - 1\<close> by simp
  qed
qed

lemma round53_exact: "0 \<le> n \<Longrightarrow> n \<le> 2 ^ 53 \<Longrightarrow> round53 n = n"
proof (cases "n = 2 ^ 53")
  case True
  have "round53 (2 ^ 53) = 2 ^ 53" by code_simp
  with True show ?thesis by simp
next
  case False
  assume "0 \<le> n" "n \<le> 2 ^ 53"
  with False have "bitlen n \<le> 53" by (intro bitlen_le_53) simp_all
  then show ?thesis by (simp add: round53_def)
qed

lemma to_double_exact: "\<bar>n\<bar> \<le> 2 ^ 53 \<Longrightarrow> to_double n = n"
proof -
  assume a: "\<bar>n\<bar> \<le> 2 ^ 53"
  then have r: "round53 \<bar>n\<bar> = \<bar>n\<bar>" by (intro round53_exact) simp_all
  have "\<bar>n\<bar> < infinity" using a by (simp add: infinity_def)
  then show ?thesis by (simp add: to_double_def r Let_def mult_sgn_abs)
qed

lemma round53_pos: "0 < n \<Longrightarrow> 0 < round53 n"
proof -
  assume pos: "0 < n"
  show ?thesis
  proof (cases "bitlen n - 53 \<le> 0")
    case True
    then show ?thesis using pos by (simp add: round53_def)
  next
    case False
    define d :: int where "d = 2 ^ nat (bitlen n - 53)"
    have dpos: "0 < d" by (simp add: d_def)
    have "nat (bitlen n - 53) \<le> nat (bitlen n - 1)" by simp
    then have "d \<le> 2 ^ nat (bitlen n - 1)" unfolding d_def by (rule power_increasing) simp
    also have "\<dots> \<le> n" using bitlen_bounds [OF pos] by simp
    finally have "d \<le> n" .
    then have "0 < n div d" using dpos by (simp add: pos_imp_zdiv_pos_iff)
    then have m: "1 \<le> n div d" by simp
    have r: "round53 n =
        (if d < 2 * (n mod d) \<or> (d = 2 * (n mod d) \<and> odd (n div d))
         then n div d + 1 else n div d) * d"
      using False by (simp add: round53_def Let_def d_def)
    show ?thesis
      unfolding r using m dpos by (intro mult_pos_pos) auto
  qed
qed

lemma to_double_pos: "0 < n \<Longrightarrow> 0 < to_double n"
  using round53_pos [of n] by (simp add: to_double_def Let_def infinity_def)

lemma to_double_nonneg: "0 \<le> n \<Longrightarrow> 0 \<le> to_double n"
  using to_double_pos [of n] by (cases "n = 0") (simp_all add: to_double_def)

lemma to_double_zero_iff: "to_double n = 0 \<longleftrightarrow> n = 0"
proof
  assume z: "to_double n = 0"
  show "n = 0"
  proof (rule ccontr)
    assume "n \<noteq> 0"
    then have "0 < \<bar>n\<bar>" by simp
    then have "0 < round53 \<bar>n\<bar>" by (rule round53_pos)
    then have "0 < (let r = round53 \<bar>n\<bar> in if infinity \<le> r then infinity else r)"
      by (simp add: Let_def infinity_def)
    with z \<open>n \<noteq> 0\<close> show False by (auto simp: to_double_def sgn_if split: if_splits)
  qed
qed (simp add: to_double_def)

lemma to_double_after_2_53: "to_double (2 ^ 53 + 1) = 2 ^ 53"
  by code_simp

lemma div_succ_not_dvd:
  fixes m d :: int
  assumes d: "0 < d" and nd: "(m + 1) mod d \<noteq> 0"
  shows "(m + 1) div d = m div d"
proof -
  define r where "r = (m + 1) mod d"
  have "0 \<le> r" and rd: "r < d" using d by (simp_all add: r_def)
  with nd have r: "0 < r" "r < d" by (simp_all add: r_def)
  have "m + 1 = d * ((m + 1) div d) + r" by (simp add: r_def)
  then have "m = d * ((m + 1) div d) + (r - 1)" by simp
  moreover have "0 \<le> r - 1" "r - 1 < d" using r by simp_all
  ultimately have "m div d = (m + 1) div d"
    by (metis int_div_pos_eq)
  then show ?thesis by simp
qed

lemma quotient_scaled_lower:
  assumes a: "0 < a" and b: "0 < b" and e: "quotient_exponent a b < 0"
  shows "b * 2 ^ 52 \<le> a * 2 ^ nat (- quotient_exponent a b)"
proof (cases "b \<le> a")
  case True
  define q where "q = a div b"
  have qpos: "0 < q" using True b by (simp add: q_def pos_imp_zdiv_pos_iff)
  have qe: "quotient_exponent a b = bitlen q - 53" using True by (simp add: quotient_exponent_def q_def)
  have bl1: "1 \<le> bitlen q" using qpos by (simp add: bitlen_alt_def) 
  have bl: "bitlen q \<le> 52" using e qe by simp
  have t: "nat (- quotient_exponent a b) = nat (53 - bitlen q)" by (simp add: qe)
  have "(2::int) ^ 52 = 2 ^ (nat (bitlen q - 1) + nat (53 - bitlen q))"
    using bl bl1 by (simp add: nat_diff_distrib' nat_add_distrib [symmetric])
  also have "\<dots> = 2 ^ nat (bitlen q - 1) * 2 ^ nat (53 - bitlen q)" by (simp add: power_add)
  finally have p: "(2::int) ^ 52 = 2 ^ nat (bitlen q - 1) * 2 ^ nat (53 - bitlen q)" .
  have "2 ^ nat (bitlen q - 1) \<le> q" using bitlen_bounds [OF qpos] by simp
  then have "b * 2 ^ nat (bitlen q - 1) \<le> b * q" using b by (simp add: mult_left_mono)
  also have "b * q \<le> a"
  proof -
    have "a = b * (a div b) + a mod b" by simp
    moreover have "0 \<le> a mod b" using b by simp
    ultimately show ?thesis unfolding q_def by linarith
  qed
  finally have "b * 2 ^ nat (bitlen q - 1) \<le> a" .
  then have "b * 2 ^ nat (bitlen q - 1) * 2 ^ nat (53 - bitlen q) \<le> a * 2 ^ nat (53 - bitlen q)"
    by (rule mult_right_mono) simp
  then show ?thesis unfolding t p by (simp add: mult.assoc)
next
  case False
  define u where "u = (b - 1) div a"
  have upos: "0 < u" using False a by (simp add: u_def pos_imp_zdiv_pos_iff)
  have qe: "quotient_exponent a b = - bitlen u - 52" using False by (simp add: quotient_exponent_def u_def)
  have bl0: "0 \<le> bitlen u" by (rule bitlen_nonneg)
  have t: "nat (- quotient_exponent a b) = nat (bitlen u) + 52" using bl0 by (simp add: qe nat_add_distrib)
  have "u < 2 ^ nat (bitlen u)" using bitlen_bounds [OF upos] by simp
  then have u1: "u + 1 \<le> 2 ^ nat (bitlen u)" by simp
  have "b - 1 = a * u + (b - 1) mod a" by (simp add: u_def)
  moreover have "(b - 1) mod a < a" using a by simp
  ultimately have "b - 1 < a * u + a" by linarith
  then have "b \<le> a * (u + 1)" by (simp add: algebra_simps)
  also have "\<dots> \<le> a * 2 ^ nat (bitlen u)" using u1 a by (simp add: mult_left_mono)
  finally have "b \<le> a * 2 ^ nat (bitlen u)" .
  then have "b * 2 ^ 52 \<le> a * 2 ^ nat (bitlen u) * 2 ^ 52" by (rule mult_right_mono) simp
  then show ?thesis unfolding t by (simp add: power_add mult.assoc)
qed

lemma js_floor_quotient_nonneg:
  assumes a: "0 \<le> a" and b: "0 < b"
  shows "0 \<le> js_floor_quotient a b"
proof (cases "a = 0 \<or> infinity \<le> \<bar>b\<bar>")
  case True
  then show ?thesis by (simp add: js_floor_quotient_def)
next
  case False
  with a have apos: "0 < a" by simp
  define e where "e = quotient_exponent a b"
  define num where "num = (if e < 0 then a * 2 ^ nat (- e) else a)"
  define den where "den = (if e < 0 then b else b * 2 ^ nat e)"
  define M where "M = (if den < 2 * (num mod den) \<or> (den = 2 * (num mod den) \<and> odd (num div den))
                       then num div den + 1 else num div den)"
  have rq: "round_quotient \<bar>a\<bar> \<bar>b\<bar> = (M, e)"
    using apos b by (simp add: round_quotient_def Let_def e_def num_def den_def M_def)
  have n0: "0 \<le> num" using apos by (simp add: num_def)
  have d0: "0 < den" using b by (simp add: den_def)
  have "0 \<le> num div den" using n0 d0 by (simp add: pos_imp_zdiv_nonneg_iff)
  then have M0: "0 \<le> M" by (simp add: M_def)
  have sg: "sgn a * sgn b = 1" using apos b by simp
  have val: "js_floor_quotient a b = (if e < 0 then M div 2 ^ nat (- e) else M * 2 ^ nat e)"
    using False rq sg by (simp add: js_floor_quotient_def)
  show ?thesis unfolding val using M0 by (simp add: pos_imp_zdiv_nonneg_iff)
qed

lemma js_floor_quotient_exact:
  assumes a: "0 \<le> a" and small: "a < 2 ^ 53" and b: "0 < b"
  shows "js_floor_quotient a b = a div b"
proof (cases "a = 0")
  case True
  then show ?thesis by (simp add: js_floor_quotient_def)
next
  case False
  with a have apos: "0 < a" by simp
  show ?thesis
  proof (cases "infinity \<le> \<bar>b\<bar>")
    case True
    then have "a < b" using small b by (simp add: infinity_def)
    then have "a div b = 0" using a by (simp add: div_pos_pos_trivial)
    with True show ?thesis by (simp add: js_floor_quotient_def)
  next
    case fin: False
    define e where "e = quotient_exponent a b"
    define num where "num = (if e < 0 then a * 2 ^ nat (- e) else a)"
    define den where "den = (if e < 0 then b else b * 2 ^ nat e)"
    define m where "m = num div den"
    define s where "s = num mod den"
    define up where "up \<longleftrightarrow> den < 2 * s \<or> (den = 2 * s \<and> odd m)"
    define M where "M = (if up then m + 1 else m)"
    have rq: "round_quotient \<bar>a\<bar> \<bar>b\<bar> = (M, e)"
      using apos b
      by (simp add: round_quotient_def Let_def e_def num_def den_def m_def s_def up_def M_def)
    have sg: "sgn a * sgn b = 1" using apos b by simp
    have val: "js_floor_quotient a b = (if e < 0 then M div 2 ^ nat (- e) else M * 2 ^ nat e)"
      using False fin rq sg by (simp add: js_floor_quotient_def)
    show ?thesis
    proof (cases "e < 0")
      case neg: True
      define t where "t = nat (- e)"
      have num: "num = a * 2 ^ t" and den: "den = b" using neg by (simp_all add: num_def den_def t_def)
      have low: "b * 2 ^ 52 \<le> a * 2 ^ t"
        using quotient_scaled_lower [OF apos b] neg by (simp add: e_def t_def)
      have mdiv: "m div 2 ^ t = a div b"
      proof -
        have "m div 2 ^ t = (a * 2 ^ t) div (b * 2 ^ t)"
          unfolding m_def num den using b by (simp add: zdiv_zmult2_eq)
        then show ?thesis by simp
      qed
      have "M div 2 ^ t = a div b"
      proof (cases up)
        case False
        then show ?thesis using mdiv by (simp add: M_def)
      next
        case True
        have s_bounds: "0 \<le> s" "s < b" using b by (simp_all add: s_def den)
        from True have half: "b \<le> 2 * s" by (auto simp: up_def den)
        have nd: "(m + 1) mod 2 ^ t \<noteq> 0"
        proof
          assume "(m + 1) mod 2 ^ t = 0"
          then obtain j where j: "m + 1 = 2 ^ t * j" by (auto simp: mod_eq_0_iff_dvd)
          have "a * 2 ^ t = b * m + s" by (simp add: m_def s_def num [symmetric] den [symmetric])
          also have "m = 2 ^ t * j - 1" using j by simp
          finally have "b - s = 2 ^ t * (b * j - a)" by (simp add: algebra_simps)
          then have dv: "(2::int) ^ t dvd b - s" by simp
          have "0 < b - s" using s_bounds by simp
          with dv have "(2::int) ^ t \<le> b - s" by (rule zdvd_imp_le)
          then have "2 * 2 ^ t \<le> b" using half by simp
          then have "2 * 2 ^ t * 2 ^ 52 \<le> b * (2::int) ^ 52" by (rule mult_right_mono) simp
          also have "\<dots> \<le> a * 2 ^ t" by (rule low)
          finally have "(2 ^ 53) * (2::int) ^ t \<le> a * 2 ^ t" by simp
          then have "(2::int) ^ 53 \<le> a" by (simp add: mult_le_cancel_right)
          with small show False by simp
        qed
        have "(m + 1) div 2 ^ t = m div 2 ^ t"
          by (rule div_succ_not_dvd) (use nd in simp_all)
        with True mdiv show ?thesis by (simp add: M_def)
      qed
      with val neg show ?thesis by (simp add: t_def)
    next
      case nonneg: False
      have ba: "b \<le> a"
      proof (rule ccontr)
        assume "\<not> b \<le> a"
        then have "e = - bitlen ((b - 1) div a) - 52" by (simp add: e_def quotient_exponent_def)
        with bitlen_nonneg [of "(b - 1) div a"] nonneg show False by simp
      qed
      define q where "q = a div b"
      have qpos: "0 < q" using ba b by (simp add: q_def pos_imp_zdiv_pos_iff)
      have qe: "e = bitlen q - 53" using ba by (simp add: e_def quotient_exponent_def q_def)
      have bq: "b * q \<le> a"
      proof -
        have "a = b * (a div b) + a mod b" by simp
        moreover have "0 \<le> a mod b" using b by simp
        ultimately show ?thesis unfolding q_def by linarith
      qed
      have "1 * q \<le> b * q" by (rule mult_right_mono) (use b qpos in simp_all)
      with bq have "q \<le> a" by simp
      then have "q \<le> 2 ^ 53 - 1" using small by simp
      then have "bitlen q \<le> 53" using qpos by (intro bitlen_le_53) simp_all
      with qe nonneg have e0: "e = 0" and bl: "bitlen q = 53" by simp_all
      have "2 ^ nat (bitlen q - 1) \<le> q" using bitlen_bounds [OF qpos] by simp
      then have q52: "2 ^ 52 \<le> q" by (simp add: bl)
      have "b * q \<le> a"
      proof -
        have "a = b * (a div b) + a mod b" by simp
        moreover have "0 \<le> a mod b" using b by simp
        ultimately show ?thesis unfolding q_def by linarith
      qed
      moreover have "b * 2 ^ 52 \<le> b * q" using q52 b by (simp add: mult_left_mono)
      ultimately have "b * 2 ^ 52 < 2 ^ 53" using small by linarith
      then have "b < 2" by simp
      with b have b1: "b = 1" by simp
      have "M = a" by (simp add: M_def up_def m_def s_def num_def den_def e0 b1)
      with val e0 b1 show ?thesis by simp
    qed
  qed
qed

section \<open>Properties of the scheduler\<close>

subsection \<open>Auxiliary facts\<close>

lemma js_rem_nonneg: "0 \<le> a \<Longrightarrow> 0 < b \<Longrightarrow> js_rem a b = a mod b"
  by (cases "a = 0") (simp_all add: js_rem_def)

lemma js_exact:
  "\<bar>a + b\<bar> \<le> 2 ^ 53 \<Longrightarrow> js_add a b = a + b"
  "\<bar>a - b\<bar> \<le> 2 ^ 53 \<Longrightarrow> js_sub a b = a - b"
  "\<bar>a * b\<bar> \<le> 2 ^ 53 \<Longrightarrow> js_mul a b = a * b"
  by (simp_all add: js_add_def js_sub_def js_mul_def to_double_exact)

lemma tick_idle: "globalTimerState s = None \<Longrightarrow> tick s = s"
  by (simp add: tick_def interval_callback_def)

lemma tick_paused: "globalIsPaused s \<Longrightarrow> tick s = s"
  by (simp add: tick_def interval_callback_def split: option.splits)

lemma save_every_10_proj [simp]:
  "globalTimerState (save_every_10 s) = globalTimerState s"
  "globalIsPaused (save_every_10 s) = globalIsPaused s"
  "globalTimerInterval (save_every_10 s) = globalTimerInterval s"
  "notifications (save_every_10 s) = notifications s"
  by (simp_all add: save_every_10_def storage_set_def split: option.splits)

lemma notify_proj [simp]:
  "globalTimerState (notify n s) = globalTimerState s"
  "globalIsPaused (notify n s) = globalIsPaused s"
  "globalTimerInterval (notify n s) = globalTimerInterval s"
  "notifications (notify n s) = notifications s @ [n]"
  by (simp_all add: notify_def)

lemma stopBackgroundTimer_proj [simp]:
  "globalTimerState (stopBackgroundTimer s) = None"
  "globalIsPaused (stopBackgroundTimer s) = False"
  "globalTimerInterval (stopBackgroundTimer s) = False"
  "notifications (stopBackgroundTimer s) = notifications s"
  by (simp_all add: stopBackgroundTimer_def storage_remove_def)

lemma tick_running:
  assumes "running s t"
  shows "globalTimerState (tick s) = advance t"
    and "globalIsPaused (tick s) = False"
    and "globalTimerInterval (tick s) = (advance t \<noteq> None)"
  using assms
  by (simp_all add: running_def tick_def interval_callback_def advance_def Let_def)

lemma tick_state_proj:
  "globalTimerState (tick s) =
     (if globalTimerInterval s \<and> \<not> globalIsPaused s
      then (case globalTimerState s of None \<Rightarrow> None | Some t \<Rightarrow> advance t)
      else globalTimerState s)"
  by (simp add: tick_def interval_callback_def advance_def Let_def split: option.splits)

lemma tick_flags_proj:
  "globalIsPaused (tick s) = globalIsPaused s"
  "globalTimerInterval (tick s) =
     (if globalTimerInterval s \<and> \<not> globalIsPaused s
      then (case globalTimerState s of None \<Rightarrow> True | Some t \<Rightarrow> advance t \<noteq> None)
      else globalTimerInterval s)"
  by (simp_all add: tick_def interval_callback_def advance_def Let_def split: option.splits)

lemma tick_complete_notifies:
  assumes "globalTimerState s = Some t" "globalTimerState (tick s) = None"
  shows "notifications (tick s) = notifications s @ [Session_Complete]"
  using assms
  by (auto simp: tick_def interval_callback_def Let_def split: if_splits)

lemma ticks_idle: "globalTimerState s = None \<Longrightarrow> ticks n s = s"
  by (induction n) (simp_all add: tick_idle)

lemma ticks_paused: "globalIsPaused s \<Longrightarrow> ticks n s = s"
  by (induction n) (simp_all add: tick_paused)

lemma ticks_add: "ticks (m + n) s = ticks n (ticks m s)"
  by (induction m arbitrary: s) simp_all

lemma advance_session_inv:
  assumes inv: "session_inv t" and adv: "advance t = Some t'"
  shows "session_inv t'"
proof -
  from inv have sg: "0 < segment t" and g: "0 \<le> grace t" and B: "0 \<le> blocks t"
    and R: "0 \<le> remainingTime t" and c0: "0 \<le> currentBlock t"
    and cB: "currentBlock t \<le> blocks t" and c53: "currentBlock t \<le> 2 ^ 53"
    by (simp_all add: session_inv_def)
  have seg_pos: "0 < js_mul (segment t) 60"
    unfolding js_mul_def using sg by (intro to_double_pos) simp
  have gr_nonneg: "0 \<le> js_mul (grace t) 60"
    unfolding js_mul_def using g by (intro to_double_nonneg) simp
  have rem_pos: "0 < js_mul (remainingTime t) 60" if "0 < remainingTime t"
    unfolding js_mul_def using that by (intro to_double_pos) simp
  show ?thesis
  proof (cases "0 < js_sub (currentTime t) 1")
    case True
    with adv have "t' = t\<lparr>currentTime := js_sub (currentTime t) 1\<rparr>"
      by (simp add: advance_def Let_def)
    with inv True show ?thesis by (auto simp: session_inv_def)
  next
    case low: False
    show ?thesis
    proof (cases "isWorkTime t")
      case work: True
      from adv low work have cont: "currentBlock t < js_sub (blocks t) 1 \<or>
          (currentBlock t = js_sub (blocks t) 1 \<and> remainingTime t > 0)"
        and t': "t' = t\<lparr>currentTime := js_mul (grace t) 60, isWorkTime := False\<rparr>"
        by (auto simp: advance_def Let_def split: if_splits)
      have brk: "currentBlock t < blocks t \<and>
                 (currentBlock t + 1 < blocks t \<or> 0 < remainingTime t)"
      proof (cases "blocks t - 1 \<le> 2 ^ 53")
        case True
        with B have "\<bar>blocks t - 1\<bar> \<le> 2 ^ 53" by simp
        then have "js_sub (blocks t) 1 = blocks t - 1" by (simp add: js_exact)
        with cont show ?thesis by auto
      next
        case False
        with c53 show ?thesis by simp
      qed
      with inv gr_nonneg show ?thesis unfolding t' by (simp add: session_inv_def)
    next
      case brk: False
      with inv have lt: "currentBlock t < blocks t"
        and more: "currentBlock t + 1 < blocks t \<or> 0 < remainingTime t"
        by (simp_all add: session_inv_def)
      define c' where "c' = js_add (currentBlock t) 1"
      have c': "(c' = currentBlock t + 1 \<or> c' = currentBlock t) \<and> c' \<le> 2 ^ 53"
      proof (cases "currentBlock t < 2 ^ 53")
        case True
        with c0 have "\<bar>currentBlock t + 1\<bar> \<le> 2 ^ 53" by simp
        then have "c' = currentBlock t + 1" unfolding c'_def by (simp add: js_exact)
        with True show ?thesis by simp
      next
        case False
        with c53 have "currentBlock t = 2 ^ 53" by simp
        then have "c' = 2 ^ 53"
          unfolding c'_def js_add_def using to_double_after_2_53 by simp
        with \<open>currentBlock t = 2 ^ 53\<close> show ?thesis by simp
      qed
      then have c'B: "c' \<le> blocks t" and c'0: "0 \<le> c'" and c'53: "c' \<le> 2 ^ 53"
        using lt c0 by auto
      show ?thesis
      proof (cases "blocks t \<le> c'")
        case True
        with c' more have Rpos: "0 < remainingTime t" by auto
        with adv low brk True have
          "t' = t\<lparr>currentBlock := c', isWorkTime := True,
                   currentTime := js_mul (remainingTime t) 60\<rparr>"
          by (auto simp: advance_def Let_def c'_def)
        with inv rem_pos [OF Rpos] c'B c'0 c'53 show ?thesis
          by (simp add: session_inv_def)
      next
        case False
        with adv low brk have
          "t' = t\<lparr>currentBlock := c', isWorkTime := True,
                   currentTime := js_mul (segment t) 60\<rparr>"
          by (auto simp: advance_def Let_def c'_def)
        with inv seg_pos c'B c'0 c'53 show ?thesis
          by (simp add: session_inv_def)
      qed
    qed
  qed
qed

lemma advance_break:
  assumes inv: "session_inv t" and brk: "\<not> isWorkTime t"
  shows "advance t \<noteq> None"
proof -
  from inv brk have c0: "0 \<le> currentBlock t" and c53: "currentBlock t \<le> 2 ^ 53"
    and lt: "currentBlock t < blocks t"
    and more: "currentBlock t + 1 < blocks t \<or> 0 < remainingTime t"
    by (simp_all add: session_inv_def)
  have "js_add (currentBlock t) 1 < blocks t \<or> 0 < remainingTime t"
  proof (cases "currentBlock t < 2 ^ 53")
    case True
    with c0 have "\<bar>currentBlock t + 1\<bar> \<le> 2 ^ 53" by simp
    then have "js_add (currentBlock t) 1 = currentBlock t + 1" by (simp add: js_exact)
    with more show ?thesis by simp
  next
    case False
    with c53 have "currentBlock t = 2 ^ 53" by simp
    then have "js_add (currentBlock t) 1 = currentBlock t"
      unfolding js_add_def using to_double_after_2_53 by simp
    with lt show ?thesis by simp
  qed
  with brk show ?thesis by (auto simp: advance_def Let_def)
qed

lemma advance_final_work:
  assumes inv: "session_inv t" and work: "isWorkTime t"
    and fin: "\<not> (currentBlock t < blocks t - 1 \<or>
                 (currentBlock t = blocks t - 1 \<and> 0 < remainingTime t))"
  shows "advance t = None \<or>
         advance t = Some (t\<lparr>currentTime := js_sub (currentTime t) 1\<rparr>)"
proof -
  from inv have B: "0 \<le> blocks t" and c53: "currentBlock t \<le> 2 ^ 53"
    by (simp_all add: session_inv_def)
  from fin c53 have "blocks t - 1 \<le> 2 ^ 53" by auto
  with B have "\<bar>blocks t - 1\<bar> \<le> 2 ^ 53" by simp
  then have "js_sub (blocks t) 1 = blocks t - 1" by (simp add: js_exact)
  with work fin show ?thesis by (auto simp: advance_def Let_def)
qed

lemma startSegmentedTimer_Some:
  assumes "js_add seg gr \<noteq> 0"
  shows "startSegmentedTimer now tot seg gr s =
     Some \<lparr>globalTimerState =
              Some \<lparr>total = tot, segment = seg, grace = gr, fullBlock = js_add seg gr,
                    blocks = js_floor_quotient tot (js_add seg gr),
                    remainingTime = js_rem tot (js_add seg gr),
                    currentBlock = 0, currentTime = js_mul seg 60, isWorkTime = True,
                    startTime = now\<rparr>,
           globalIsPaused = False, globalTimerInterval = True,
           stored_currentTimer =
              Some (Some \<lparr>total = tot, segment = seg, grace = gr, fullBlock = js_add seg gr,
                    blocks = js_floor_quotient tot (js_add seg gr),
                    remainingTime = js_rem tot (js_add seg gr),
                    currentBlock = 0, currentTime = js_mul seg 60, isWorkTime = True,
                    startTime = now\<rparr>),
           stored_isPaused = Some False,
           notifications =
             notifications s @
             [Session_Started tot seg gr (js_floor_quotient tot (js_add seg gr))]\<rparr>"
  using assms
  by (simp add: startSegmentedTimer_def Let_def storage_set_def notify_def
      startBackgroundCountdown_def)

lemma valid_config_fullBlock: "valid_config tot seg gr \<Longrightarrow> 0 < js_add seg gr"
  unfolding js_add_def by (intro to_double_pos) (simp add: valid_config_def)

lemma start_valid:
  assumes v: "valid_config tot seg gr"
  shows "\<exists>s0 t0. startSegmentedTimer now tot seg gr s = Some s0 \<and>
           running s0 t0 \<and> session_inv t0 \<and>
           t0 = \<lparr>total = tot, segment = seg, grace = gr, fullBlock = js_add seg gr,
                    blocks = js_floor_quotient tot (js_add seg gr),
                    remainingTime = js_rem tot (js_add seg gr),
                    currentBlock = 0, currentTime = js_mul seg 60, isWorkTime = True,
                    startTime = now\<rparr> \<and>
           notifications s0 =
             notifications s @
             [Session_Started tot seg gr (js_floor_quotient tot (js_add seg gr))]"
proof -
  have fb: "0 < js_add seg gr" using v by (rule valid_config_fullBlock)
  then have nz: "js_add seg gr \<noteq> 0" by simp
  from v have t0: "0 \<le> tot" and sg: "0 < seg" and g: "0 \<le> gr"
    by (auto simp: valid_config_def)
  have b: "0 \<le> js_floor_quotient tot (js_add seg gr)"
    using t0 fb by (rule js_floor_quotient_nonneg)
  have r: "0 \<le> js_rem tot (js_add seg gr)"
    using t0 fb by (simp add: js_rem_nonneg)
  have ct: "0 < js_mul seg 60"
    unfolding js_mul_def using sg by (intro to_double_pos) simp
  show ?thesis
    unfolding startSegmentedTimer_Some [OF nz]
    using sg g b r ct by (simp add: running_def session_inv_def)
qed

lemma tick_sched_inv: "sched_inv s \<Longrightarrow> sched_inv (tick s)"
proof (cases "globalTimerState s")
  case None
  assume "sched_inv s"
  with None show ?thesis by (simp add: tick_idle)
next
  case (Some t)
  assume si: "sched_inv s"
  with Some have inv: "session_inv t" and iv: "globalTimerInterval s"
    by (simp_all add: sched_inv_def)
  show ?thesis
  proof (cases "globalIsPaused s")
    case True
    with si show ?thesis by (simp add: tick_paused)
  next
    case False
    with Some iv have run: "running s t" by (simp add: running_def)
    show ?thesis
    proof (cases "advance t")
      case None
      with tick_running(1) [OF run] show ?thesis by (simp add: sched_inv_def)
    next
      case (Some t')
      with inv have "session_inv t'" by (rule advance_session_inv)
      with Some tick_running [OF run] show ?thesis by (simp add: sched_inv_def)
    qed
  qed
qed

lemma pause_resume_proj [simp]:
  "globalTimerState (pauseBackgroundTimer s) = globalTimerState s"
  "globalIsPaused (pauseBackgroundTimer s) = True"
  "globalTimerInterval (pauseBackgroundTimer s) = globalTimerInterval s"
  "notifications (pauseBackgroundTimer s) = notifications s"
  "globalTimerState (resumeBackgroundTimer s) = globalTimerState s"
  "globalIsPaused (resumeBackgroundTimer s) = False"
  "globalTimerInterval (resumeBackgroundTimer s) = globalTimerInterval s"
  "notifications (resumeBackgroundTimer s) = notifications s"
  by (simp_all add: pauseBackgroundTimer_def resumeBackgroundTimer_def storage_set_def)

lemma onMessage_sched_inv:
  assumes "sched_inv s" "valid_message m" "onMessage now m s = Some (r, s')"
  shows "sched_inv s'"
proof (cases m)
  case (START_TIMER tot seg gr)
  with assms have v: "valid_config tot seg gr"
    and st: "startSegmentedTimer now tot seg gr s = Some s'"
    by (auto split: option.splits)
  from start_valid [OF v, of now s] st show ?thesis
    by (auto simp: sched_inv_def running_def)
next
  case PAUSE_TIMER
  with assms show ?thesis by (auto simp: sched_inv_def split: option.splits)
next
  case RESUME_TIMER
  with assms show ?thesis by (auto simp: sched_inv_def split: option.splits)
next
  case STOP_TIMER
  with assms show ?thesis by (auto simp: sched_inv_def)
next
  case GET_TIMER_STATE
  with assms show ?thesis by auto
qed

lemma reachable_sched_inv: "reachable s \<Longrightarrow> sched_inv s"
proof (induction rule: reachable.induct)
  case reachable_init
  show ?case by (simp add: sched_inv_def initial_scheduler_def)
next
  case (reachable_message s m now r s')
  then show ?case using onMessage_sched_inv by blast
next
  case (reachable_tick s)
  then show ?case by (simp add: tick_sched_inv)
qed

lemma reachable_ticks: "reachable s \<Longrightarrow> reachable (ticks n s)"
  by (induction n arbitrary: s) (simp_all add: reachable_tick)

lemma reachable_start:
  assumes "reachable s" "valid_config tot seg gr"
  shows "reachable (the (startSegmentedTimer now tot seg gr s))"
proof -
  from start_valid [OF assms(2), of now s] obtain s' where
    s': "startSegmentedTimer now tot seg gr s = Some s'"
    by blast
  then have "onMessage now (START_TIMER tot seg gr) s = Some (Ack True, s')" by simp
  with assms have "reachable s'"
    using reachable_message [of s "START_TIMER tot seg gr" now "Ack True" s'] by simp
  with s' show ?thesis by simp
qed

lemma tick_final_work:
  assumes si: "sched_inv s" and st: "globalTimerState s = Some t" and work: "isWorkTime t"
    and fin: "\<not> (currentBlock t < blocks t - 1 \<or>
                 (currentBlock t = blocks t - 1 \<and> 0 < remainingTime t))"
  shows "globalTimerState (tick s) = None \<or>
         (\<exists>t'. globalTimerState (tick s) = Some t' \<and> isWorkTime t' \<and>
               currentBlock t' = currentBlock t \<and> blocks t' = blocks t \<and>
               remainingTime t' = remainingTime t)"
proof -
  from si st have inv: "session_inv t" by (simp add: sched_inv_def)
  from advance_final_work [OF inv work fin] st work show ?thesis
    by (auto simp: tick_state_proj)
qed

lemma ticks_final_work:
  assumes "sched_inv s" "globalTimerState s = Some t" "isWorkTime t"
    and "\<not> (currentBlock t < blocks t - 1 \<or>
            (currentBlock t = blocks t - 1 \<and> 0 < remainingTime t))"
    and "globalTimerState (ticks n s) = Some t'"
  shows "isWorkTime t'"
  using assms
proof (induction n arbitrary: s t)
  case 0
  then show ?case by simp
next
  case (Suc n)
  from tick_final_work [OF Suc.prems(1,2,3,4)] show ?case
  proof
    assume idle: "globalTimerState (tick s) = None"
    then have "ticks n (tick s) = tick s" by (rule ticks_idle)
    with Suc.prems(5) idle show ?thesis by simp
  next
    assume "\<exists>t'. globalTimerState (tick s) = Some t' \<and> isWorkTime t' \<and>
               currentBlock t' = currentBlock t \<and> blocks t' = blocks t \<and>
               remainingTime t' = remainingTime t"
    then obtain u where u: "globalTimerState (tick s) = Some u" "isWorkTime u"
      "currentBlock u = currentBlock t" "blocks u = blocks t" "remainingTime u = remainingTime t"
      by blast
    have "sched_inv (tick s)" using Suc.prems(1) by (rule tick_sched_inv)
    then show ?thesis
      using Suc.IH [of "tick s" u] u Suc.prems(4,5) by simp
  qed
qed

lemma last_second_example_reachable: "reachable last_second_example"
  unfolding last_second_example_def
  by (intro reachable_ticks reachable_start reachable_init) (simp add: valid_config_def)

lemma last_second_example_state:
  "globalTimerState last_second_example =
     Some \<lparr>total = 2, segment = 1, grace = 1, fullBlock = 2, blocks = 1, remainingTime = 0,
           currentBlock = 0, currentTime = 1, isWorkTime = True, startTime = 0\<rparr>"
  unfolding last_second_example_def by code_simp

lemma last_second_example_running: "\<not> globalIsPaused last_second_example"
  unfolding last_second_example_def by code_simp

lemma start_exact:
  assumes v: "valid_config tot seg gr" and x: "exact_config tot seg gr"
  shows "js_add seg gr = seg + gr"
    and "js_floor_quotient tot (js_add seg gr) = tot div (seg + gr)"
    and "js_rem tot (js_add seg gr) = tot mod (seg + gr)"
    and "js_mul seg 60 = seg * 60"
    and "js_floor_quotient tot (seg + gr) = tot div (seg + gr)"
    and "js_rem tot (seg + gr) = tot mod (seg + gr)"
proof -
  from v x have sg: "0 < seg" and lt: "seg < tot" and g: "0 \<le> gr"
    and t60: "tot * 60 \<le> 2 ^ 53" and g60: "gr * 60 \<le> 2 ^ 53"
    by (simp_all add: valid_config_def exact_config_def)
  have "\<bar>seg + gr\<bar> \<le> 2 ^ 53" using sg lt g t60 g60 by simp
  then show fb: "js_add seg gr = seg + gr" by (simp add: js_exact)
  have tot: "0 \<le> tot" "tot < 2 ^ 53" using sg lt t60 by simp_all
  have pos: "0 < seg + gr" using sg g by simp
  show "js_floor_quotient tot (js_add seg gr) = tot div (seg + gr)"
    unfolding fb using tot pos by (intro js_floor_quotient_exact)
  show "js_rem tot (js_add seg gr) = tot mod (seg + gr)"
    unfolding fb using tot pos by (intro js_rem_nonneg)
  have "\<bar>seg * 60\<bar> \<le> 2 ^ 53" using sg lt t60 by simp
  then show "js_mul seg 60 = seg * 60" by (simp add: js_exact)
  show "js_floor_quotient tot (seg + gr) = tot div (seg + gr)"
    using tot pos by (intro js_floor_quotient_exact)
  show "js_rem tot (seg + gr) = tot mod (seg + gr)"
    using tot pos by (intro js_rem_nonneg)
qed

lemma mult_ge_self: "1 \<le> k \<Longrightarrow> 0 \<le> P \<Longrightarrow> P \<le> k * (P::int)"
  using mult_right_mono [of 1 k P] by simp

lemma exact_inv_numbers:
  assumes x: "exact_inv t"
  shows "js_sub (currentTime t) 1 = currentTime t - 1"
    and "js_sub (blocks t) 1 = blocks t - 1"
    and "js_mul (grace t) 60 = grace t * 60"
    and "js_mul (segment t) 60 = segment t * 60"
    and "js_mul (remainingTime t) 60 = remainingTime t * 60"
    and "\<not> isWorkTime t \<Longrightarrow> js_add (currentBlock t) 1 = currentBlock t + 1"
proof -
  from x have inv: "session_inv t" and s60: "segment t * 60 \<le> 2 ^ 53"
    and g60: "grace t * 60 \<le> 2 ^ 53" and r60: "remainingTime t * 60 \<le> 2 ^ 53"
    and B: "blocks t \<le> 2 ^ 53" and ct: "currentTime t \<le> 2 ^ 53"
    by (simp_all add: exact_inv_def)
  from inv have sg: "0 < segment t" and g: "0 \<le> grace t" and B0: "0 \<le> blocks t"
    and R: "0 \<le> remainingTime t" and c0: "0 \<le> currentBlock t"
    by (simp_all add: session_inv_def)
  from inv have ct0: "0 \<le> currentTime t" by (auto simp: session_inv_def split: if_splits)
  have "\<bar>currentTime t - 1\<bar> \<le> 2 ^ 53" using ct ct0 by simp
  then show "js_sub (currentTime t) 1 = currentTime t - 1" by (simp add: js_exact)
  have "\<bar>blocks t - 1\<bar> \<le> 2 ^ 53" using B B0 by simp
  then show "js_sub (blocks t) 1 = blocks t - 1" by (simp add: js_exact)
  have "\<bar>grace t * 60\<bar> \<le> 2 ^ 53" using g g60 by simp
  then show "js_mul (grace t) 60 = grace t * 60" by (simp add: js_exact)
  have "\<bar>segment t * 60\<bar> \<le> 2 ^ 53" using sg s60 by simp
  then show "js_mul (segment t) 60 = segment t * 60" by (simp add: js_exact)
  have "\<bar>remainingTime t * 60\<bar> \<le> 2 ^ 53" using R r60 by simp
  then show "js_mul (remainingTime t) 60 = remainingTime t * 60" by (simp add: js_exact)
  show "js_add (currentBlock t) 1 = currentBlock t + 1" if "\<not> isWorkTime t"
  proof -
    from inv that have "currentBlock t < blocks t" by (simp add: session_inv_def)
    with B c0 have "\<bar>currentBlock t + 1\<bar> \<le> 2 ^ 53" by simp
    then show ?thesis by (simp add: js_exact)
  qed
qed

lemma advance_exact:
  assumes x: "exact_inv t"
  shows "advance t =
     (if currentTime t - 1 \<le> 0 then
        (if isWorkTime t then
           (if currentBlock t < blocks t - 1 \<or>
               (currentBlock t = blocks t - 1 \<and> remainingTime t > 0)
            then Some (t\<lparr>currentTime := grace t * 60, isWorkTime := False\<rparr>)
            else None)
         else
           (if currentBlock t + 1 \<ge> blocks t then
              (if remainingTime t > 0
               then Some (t\<lparr>currentBlock := currentBlock t + 1, isWorkTime := True,
                           currentTime := remainingTime t * 60\<rparr>)
               else None)
            else Some (t\<lparr>currentBlock := currentBlock t + 1, isWorkTime := True,
                         currentTime := segment t * 60\<rparr>)))
      else Some (t\<lparr>currentTime := currentTime t - 1\<rparr>))"
proof (cases "isWorkTime t")
  case True
  then show ?thesis
    by (simp add: advance_def Let_def exact_inv_numbers(1-5) [OF x])
next
  case False
  then show ?thesis
    by (simp add: advance_def Let_def exact_inv_numbers(1-5) [OF x]
        exact_inv_numbers(6) [OF x False])
qed

lemma advance_exact_inv:
  assumes x: "exact_inv t" and adv: "advance t = Some t'"
  shows "exact_inv t'"
proof -
  from x have inv: "session_inv t" by (simp add: exact_inv_def)
  have inv': "session_inv t'" using inv adv by (rule advance_session_inv)
  from adv have "segment t' = segment t \<and> grace t' = grace t \<and>
      remainingTime t' = remainingTime t \<and> blocks t' = blocks t \<and>
      (currentTime t' = currentTime t - 1 \<or> currentTime t' = grace t * 60 \<or>
       currentTime t' = segment t * 60 \<or> currentTime t' = remainingTime t * 60)"
    unfolding advance_exact [OF x] by (auto split: if_splits)
  with x inv' show ?thesis by (auto simp: exact_inv_def)
qed

lemma ticks_left_pos:
  assumes inv: "session_inv t"
  shows "1 \<le> ticks_left t"
proof -
  define G where "G = max 1 (grace t * 60)"
  define P where "P = segment t * 60 + G"
  define X where "X = (blocks t - 1 - currentBlock t) * P"
  define tail where "tail = (if 0 < remainingTime t then G + remainingTime t * 60 else 0)"
  have G1: "1 \<le> G" by (simp add: G_def)
  have P1: "G \<le> P" using inv by (simp add: P_def session_inv_def)
  have tail0: "0 \<le> tail" using inv G1 by (simp add: tail_def session_inv_def)
  have tl: "ticks_left t =
      (if isWorkTime t
       then (if currentBlock t < blocks t then max 1 (currentTime t) + X + tail
             else max 1 (currentTime t))
       else max 1 (currentTime t) + X - G + tail)"
    by (simp add: ticks_left_def Let_def G_def P_def tail_def X_def)
  show ?thesis
  proof (cases "currentBlock t + 1 < blocks t")
    case True
    have "P \<le> X"
      unfolding X_def using True P1 G1 by (intro mult_ge_self) auto
    with P1 G1 tail0 show ?thesis unfolding tl by auto
  next
    case False
    show ?thesis
    proof (cases "currentBlock t + 1 = blocks t")
      case True
      then have X: "X = 0" by (simp add: X_def)
      have "isWorkTime t \<or> 0 < remainingTime t"
        using inv True by (auto simp: session_inv_def split: if_splits)
      then show ?thesis unfolding tl X using tail0 by (auto simp: tail_def)
    next
      case F2: False
      with False have ge: "blocks t \<le> currentBlock t" by simp
      then have "isWorkTime t" using inv by (auto simp: session_inv_def split: if_splits)
      with ge show ?thesis unfolding tl by simp
    qed
  qed
qed

lemma advance_step:
  assumes x: "exact_inv t"
  shows "(ticks_left t \<le> 1 \<longrightarrow> advance t = None) \<and>
         (1 < ticks_left t \<longrightarrow>
            (\<exists>t'. advance t = Some t' \<and> exact_inv t' \<and> ticks_left t' = ticks_left t - 1))"
proof -
  from x have inv: "session_inv t" by (simp add: exact_inv_def)
  define G where "G = max 1 (grace t * 60)"
  define P where "P = segment t * 60 + G"
  define X where "X = (blocks t - 1 - currentBlock t) * P"
  define tail where "tail = (if 0 < remainingTime t then G + remainingTime t * 60 else 0)"
  have G1: "1 \<le> G" by (simp add: G_def)
  have P1: "1 \<le> P" using inv G1 by (simp add: P_def session_inv_def)
  have S1: "1 \<le> segment t * 60" using inv by (simp add: session_inv_def)
  have tail0: "0 \<le> tail" using inv G1 by (simp add: tail_def session_inv_def)
  have X0: "0 \<le> X" if "currentBlock t < blocks t"
    unfolding X_def using that P1 by (intro mult_nonneg_nonneg) auto
  have X1: "P \<le> X" if "currentBlock t + 1 < blocks t"
    unfolding X_def using that P1 by (intro mult_ge_self) auto
  have Xz: "X = 0" if "currentBlock t + 1 = blocks t"
    unfolding X_def using that by simp
  have tl_gen: "ticks_left u =
      (if isWorkTime u
       then (if currentBlock u < blocks t
             then max 1 (currentTime u) + (blocks t - 1 - currentBlock u) * P + tail
             else max 1 (currentTime u))
       else max 1 (currentTime u) + (blocks t - 1 - currentBlock u) * P - G + tail)"
    if "grace u = grace t" "segment u = segment t" "blocks u = blocks t"
       "remainingTime u = remainingTime t" for u
    using that by (simp add: ticks_left_def Let_def G_def P_def tail_def)
  have tl: "ticks_left t =
      (if isWorkTime t
       then (if currentBlock t < blocks t then max 1 (currentTime t) + X + tail
             else max 1 (currentTime t))
       else max 1 (currentTime t) + X - G + tail)"
    using tl_gen [of t] by (simp add: X_def)
  have Xnext: "(blocks t - 1 - (currentBlock t + 1)) * P = X - P"
    by (simp add: X_def algebra_simps)
  have keep: "exact_inv t'" if "advance t = Some t'" for t'
    using x that by (rule advance_exact_inv)
  show ?thesis
  proof (cases "1 < currentTime t")
    case True
    have gt: "1 < ticks_left t"
    proof (cases "isWorkTime t")
      case True
      with \<open>1 < currentTime t\<close> X0 tail0 show ?thesis unfolding tl by auto
    next
      case False
      then have cb: "currentBlock t < blocks t"
        and more: "currentBlock t + 1 < blocks t \<or> 0 < remainingTime t"
        using inv by (auto simp: session_inv_def)
      show ?thesis
      proof (cases "currentBlock t + 1 < blocks t")
        case True
        with X1 have "P \<le> X" by simp
        with \<open>1 < currentTime t\<close> False tail0 S1 show ?thesis
          unfolding tl by (simp add: P_def)
      next
        case F2: False
        with cb more have "X = 0" "0 < remainingTime t" using Xz by auto
        with \<open>1 < currentTime t\<close> False show ?thesis
          unfolding tl by (simp add: tail_def)
      qed
    qed
    define t' where "t' = t\<lparr>currentTime := currentTime t - 1\<rparr>"
    have adv: "advance t = Some t'"
      using True by (simp add: advance_exact [OF x] t'_def)
    have tl': "ticks_left t' = ticks_left t - 1"
      using True by (auto simp: t'_def ticks_left_def Let_def)
    show ?thesis using adv gt keep [OF adv] tl' by simp
  next
    case low: False
    then have N: "max 1 (currentTime t) = 1" by simp
    show ?thesis
    proof (cases "isWorkTime t")
      case work: True
      show ?thesis
      proof (cases "currentBlock t < blocks t - 1 \<or>
                    (currentBlock t = blocks t - 1 \<and> remainingTime t > 0)")
        case cont: True
        then have cb: "currentBlock t < blocks t" by auto
        define t' where "t' = t\<lparr>currentTime := grace t * 60, isWorkTime := False\<rparr>"
        have adv: "advance t = Some t'"
          using low work cont by (simp add: advance_exact [OF x] t'_def)
        have tl1: "ticks_left t = 1 + X + tail"
          unfolding tl using work cb N by simp
        have gt: "1 < ticks_left t"
        proof (cases "currentBlock t < blocks t - 1")
          case True
          then have "P \<le> X" using X1 by simp
          then show ?thesis using P1 tail0 unfolding tl1 by simp
        next
          case False
          with cont have "remainingTime t > 0" by auto
          then have "1 \<le> tail" using G1 by (simp add: tail_def)
          then show ?thesis using X0 [OF cb] unfolding tl1 by simp
        qed
        have "max 1 (grace t * 60) = G" by (simp add: G_def)
        then have tl': "ticks_left t' = ticks_left t - 1"
          unfolding tl1 using tl_gen [of t'] by (simp add: t'_def X_def)
        show ?thesis using adv gt keep [OF adv] tl' by simp
      next
        case fin: False
        then have adv: "advance t = None"
          using low work by (simp add: advance_exact [OF x])
        have "ticks_left t = 1"
        proof (cases "currentBlock t < blocks t")
          case True
          with fin have "currentBlock t + 1 = blocks t" "remainingTime t = 0"
            using inv by (auto simp: session_inv_def)
          then show ?thesis using work True N Xz unfolding tl by (simp add: tail_def)
        next
          case False
          then show ?thesis using work N unfolding tl by simp
        qed
        with adv show ?thesis by simp
      qed
    next
      case brk: False
      then have cb: "currentBlock t < blocks t"
        and more: "currentBlock t + 1 < blocks t \<or> 0 < remainingTime t"
        using inv by (auto simp: session_inv_def)
      have tl1: "ticks_left t = 1 + X - G + tail"
        unfolding tl using brk N by simp
      show ?thesis
      proof (cases "currentBlock t + 1 < blocks t")
        case True
        define t' where "t' = t\<lparr>currentBlock := currentBlock t + 1, isWorkTime := True,
                                  currentTime := segment t * 60\<rparr>"
        have adv: "advance t = Some t'"
          using low brk True by (simp add: advance_exact [OF x] t'_def)
        have seg: "max 1 (segment t * 60) = segment t * 60"
          using S1 by simp
        have tl': "ticks_left t' = ticks_left t - 1"
          unfolding tl1 using tl_gen [of t'] True seg Xnext by (simp add: t'_def P_def)
        have gt: "1 < ticks_left t"
          unfolding tl1 using X1 [OF True] S1 tail0 by (simp add: P_def)
        show ?thesis using adv keep [OF adv] tl' gt by simp
      next
        case False
        with cb more have eq: "currentBlock t + 1 = blocks t" and R: "0 < remainingTime t"
          by auto
        define t' where "t' = t\<lparr>currentBlock := currentBlock t + 1, isWorkTime := True,
                                  currentTime := remainingTime t * 60\<rparr>"
        have adv: "advance t = Some t'"
          using low brk eq R by (simp add: advance_exact [OF x] t'_def)
        have tl2: "ticks_left t = 1 + remainingTime t * 60"
          unfolding tl1 using Xz [OF eq] R by (simp add: tail_def)
        have tl': "ticks_left t' = remainingTime t * 60"
          using tl_gen [of t'] R eq by (simp add: t'_def)
        show ?thesis using adv keep [OF adv] tl2 tl' R by simp
      qed
    qed
  qed
qed

lemma tick_step:
  assumes run: "running s t" and inv: "exact_inv t"
  shows "(ticks_left t \<le> 1 \<longrightarrow> globalTimerState (tick s) = None) \<and>
         (1 < ticks_left t \<longrightarrow>
            (\<exists>t'. running (tick s) t' \<and> exact_inv t' \<and> ticks_left t' = ticks_left t - 1))"
  using advance_step [OF inv] tick_running [OF run]
  by (auto simp: running_def)

lemma ticks_before_end:
  assumes "running s t" "exact_inv t" "int n < ticks_left t"
  shows "\<exists>t'. running (ticks n s) t' \<and> exact_inv t' \<and> ticks_left t' = ticks_left t - int n"
  using assms
proof (induction n arbitrary: s t)
  case 0
  then show ?case by auto
next
  case (Suc n)
  from Suc.prems have "1 < ticks_left t" by simp
  with tick_step [OF Suc.prems(1,2)] obtain t1 where
    t1: "running (tick s) t1" "exact_inv t1" "ticks_left t1 = ticks_left t - 1"
    by auto
  with Suc.prems have "int n < ticks_left t1" by simp
  from Suc.IH [OF t1(1,2) this] t1(3) show ?case by auto
qed

lemma ticks_at_end:
  assumes run: "running s t" and inv: "exact_inv t" and n: "ticks_left t \<le> int n"
  shows "globalTimerState (ticks n s) = None"
proof -
  have "session_inv t" using inv by (simp add: exact_inv_def)
  then have pos: "1 \<le> ticks_left t" by (rule ticks_left_pos)
  define m where "m = nat (ticks_left t - 1)"
  have m: "int m = ticks_left t - 1" using pos by (simp add: m_def)
  then have "int m < ticks_left t" by simp
  from ticks_before_end [OF run inv this] m obtain t' where
    t': "running (ticks m s) t'" "exact_inv t'" "ticks_left t' = 1"
    by auto
  from tick_step [OF t'(1,2)] t'(3) have idle: "globalTimerState (tick (ticks m s)) = None"
    by simp
  have "Suc m \<le> n" using m n by linarith
  then obtain d where d: "n = Suc m + d" using le_Suc_ex by blast
  have "ticks n s = ticks d (tick (ticks m s))"
    unfolding d using ticks_add [of "Suc m" d s] ticks_add [of m 1 s] by simp
  with idle show ?thesis by (simp add: ticks_idle)
qed

lemma start_exact_inv:
  assumes v: "valid_config tot seg gr" and x: "exact_config tot seg gr"
  shows "exact_inv \<lparr>total = tot, segment = seg, grace = gr, fullBlock = js_add seg gr,
                    blocks = js_floor_quotient tot (js_add seg gr),
                    remainingTime = js_rem tot (js_add seg gr),
                    currentBlock = 0, currentTime = js_mul seg 60, isWorkTime = True,
                    startTime = now\<rparr>"
proof -
  from start_valid [OF v, of now initial_scheduler]
  have inv: "session_inv \<lparr>total = tot, segment = seg, grace = gr, fullBlock = js_add seg gr,
                    blocks = js_floor_quotient tot (js_add seg gr),
                    remainingTime = js_rem tot (js_add seg gr),
                    currentBlock = 0, currentTime = js_mul seg 60, isWorkTime = True,
                    startTime = now\<rparr>"
    by blast
  from v x have sg: "0 < seg" and lt: "seg < tot" and g: "0 \<le> gr"
    and t60: "tot * 60 \<le> 2 ^ 53" and g60: "gr * 60 \<le> 2 ^ 53"
    by (simp_all add: valid_config_def exact_config_def)
  have pos: "0 < seg + gr" using sg g by simp
  have tot0: "0 \<le> tot" using sg lt by simp
  have r: "tot mod (seg + gr) \<le> tot" using tot0 pos by (simp add: zmod_le_nonneg_dividend)
  have bq: "(seg + gr) * (tot div (seg + gr)) \<le> tot"
  proof -
    have "tot = (seg + gr) * (tot div (seg + gr)) + tot mod (seg + gr)" by simp
    moreover have "0 \<le> tot mod (seg + gr)" using pos by simp
    ultimately show ?thesis by linarith
  qed
  have q0: "0 \<le> tot div (seg + gr)" using tot0 pos by (simp add: pos_imp_zdiv_nonneg_iff)
  have "1 * (tot div (seg + gr)) \<le> (seg + gr) * (tot div (seg + gr))"
    using pos q0 by (intro mult_right_mono) simp_all
  with bq have b: "tot div (seg + gr) \<le> tot" by simp
  have s60: "seg * 60 \<le> 2 ^ 53" using lt t60 by simp
  have r60: "tot mod (seg + gr) * 60 \<le> 2 ^ 53" using r t60 by simp
  have b53: "tot div (seg + gr) \<le> 2 ^ 53" using b t60 tot0 by simp
  have num: "js_add seg gr = seg + gr" "js_mul seg 60 = seg * 60"
    "js_floor_quotient tot (seg + gr) = tot div (seg + gr)"
    "js_rem tot (seg + gr) = tot mod (seg + gr)"
    using start_exact [OF v x] by simp_all
  from inv have "session_inv \<lparr>total = tot, segment = seg, grace = gr, fullBlock = seg + gr,
                    blocks = tot div (seg + gr), remainingTime = tot mod (seg + gr),
                    currentBlock = 0, currentTime = seg * 60, isWorkTime = True,
                    startTime = now\<rparr>"
    unfolding num .
  then show ?thesis
    unfolding exact_inv_def num timer_state.simps using s60 r60 b53 g60 by blast
qed

lemma session_length:
  assumes v: "valid_config tot seg gr" and x: "exact_config tot seg gr"
  shows "\<exists>s0 t0. startSegmentedTimer now tot seg gr s = Some s0 \<and>
           globalTimerState s0 = Some t0 \<and>
           ticks_left t0 =
             (if tot div (seg + gr) = 0 then seg * 60
              else seg * 60 + (tot div (seg + gr) - 1) * (seg * 60 + max 1 (gr * 60)) +
                   (if 0 < tot mod (seg + gr) then max 1 (gr * 60) + tot mod (seg + gr) * 60 else 0)) \<and>
           (\<forall>j. int j < ticks_left t0 \<longrightarrow> globalTimerState (ticks j s0) \<noteq> None) \<and>
           (\<forall>j. ticks_left t0 \<le> int j \<longrightarrow> globalTimerState (ticks j s0) = None)"
proof -
  from v have seg: "0 < seg" and pos: "0 < seg + gr" and tot: "0 \<le> tot"
    by (auto simp: valid_config_def)
  from start_valid [OF v, of now s] obtain s0 t0 where
    st: "startSegmentedTimer now tot seg gr s = Some s0" and run: "running s0 t0"
    and t0: "t0 = \<lparr>total = tot, segment = seg, grace = gr, fullBlock = js_add seg gr,
                    blocks = js_floor_quotient tot (js_add seg gr),
                    remainingTime = js_rem tot (js_add seg gr),
                    currentBlock = 0, currentTime = js_mul seg 60, isWorkTime = True,
                    startTime = now\<rparr>"
    by blast
  have xi: "exact_inv t0" unfolding t0 using v x by (rule start_exact_inv)
  have b: "0 \<le> tot div (seg + gr)" using tot pos by (simp add: pos_imp_zdiv_nonneg_iff)
  have len: "ticks_left t0 =
             (if tot div (seg + gr) = 0 then seg * 60
              else seg * 60 + (tot div (seg + gr) - 1) * (seg * 60 + max 1 (gr * 60)) +
                   (if 0 < tot mod (seg + gr) then max 1 (gr * 60) + tot mod (seg + gr) * 60 else 0))"
    unfolding t0 using seg b by (auto simp: ticks_left_def Let_def start_exact [OF v x])
  have before: "globalTimerState (ticks j s0) \<noteq> None" if "int j < ticks_left t0" for j
    using ticks_before_end [OF run xi that] by (auto simp: running_def)
  have after: "globalTimerState (ticks j s0) = None" if "ticks_left t0 \<le> int j" for j
    using ticks_at_end [OF run xi that] .
  from st run len before after show ?thesis by (auto simp: running_def)
qed

lemma session_ticks_bound:
  assumes v: "valid_config tot seg gr" and g: "0 < gr"
  shows "(if tot div (seg + gr) = 0 then seg * 60
              else seg * 60 + (tot div (seg + gr) - 1) * (seg * 60 + max 1 (gr * 60)) +
                   (if 0 < tot mod (seg + gr) then max 1 (gr * 60) + tot mod (seg + gr) * 60 else 0))
         \<le> tot * 60"
proof -
  define B where "B = tot div (seg + gr)"
  define R where "R = tot mod (seg + gr)"
  define Y where "Y = B * (seg * 60 + gr * 60)"
  from v have pos: "0 < seg + gr" and lt: "seg < tot" by (auto simp: valid_config_def)
  have R0: "0 \<le> R" using pos by (simp add: R_def)
  have "B * (seg + gr) + R = tot" unfolding B_def R_def by (rule div_mult_mod_eq)
  then have "tot * 60 = (B * (seg + gr) + R) * 60" by simp
  also have "\<dots> = Y + R * 60" by (simp add: Y_def algebra_simps)
  finally have tot: "tot * 60 = Y + R * 60" .
  have prev: "(B - 1) * (seg * 60 + gr * 60) = Y - (seg * 60 + gr * 60)"
    by (simp add: Y_def algebra_simps)
  have G: "max 1 (gr * 60) = gr * 60" using g by simp
  show ?thesis
    unfolding G B_def [symmetric] R_def [symmetric] prev tot [symmetric]
    using lt R0 g tot by auto
qed

lemma stuck_ticks:
  assumes run: "running s t" and adv: "advance t = Some t"
  shows "running (ticks n s) t"
  using run
proof (induction n arbitrary: s)
  case 0
  then show ?case by simp
next
  case (Suc n)
  from tick_running [OF Suc.prems] adv have "running (tick s) t"
    by (simp add: running_def)
  from Suc.IH [OF this] show ?case by simp
qed

lemma rounded_example_start:
  "startSegmentedTimer 0 300239975158035 300239975158034 1 initial_scheduler \<noteq> None \<and>
   running (the (startSegmentedTimer 0 300239975158035 300239975158034 1 initial_scheduler))
     rounded_example"
  by code_simp

lemma rounded_example_stuck: "advance rounded_example = Some rounded_example"
  by code_simp

subsection \<open>The claims about the scheduler\<close>

text \<open>
  Claim C1, amended. For every valid configuration (total > 0, 0 < segment < total,
  grace >= 0) in the exact range (the session and a break, in seconds, are at most
  \<open>2^53\<close>) the \<open>START_TIMER\<close> message is acknowledged and leaves a timer state with
  \<open>blocks = floor(total / (segment + grace))\<close>,
  \<open>remainingTime = total mod (segment + grace)\<close>, hence
  \<open>blocks * fullBlock + remainingTime = total\<close> and \<open>0 \<le> remainingTime < fullBlock\<close>,
  with \<open>currentBlock = 0\<close>, \<open>isWorkTime = true\<close> and \<open>currentTime = segment * 60\<close>; and
  \<open>GET_TIMER_STATE\<close> right after the start returns exactly this state, not paused.
  The instance checked after it is the start with total 50, segment 20 and grace 5.
\<close>

theorem start_initial_state:
  assumes v: "valid_config tot seg gr" and x: "exact_config tot seg gr"
  shows "\<exists>s' t. onMessage now (START_TIMER tot seg gr) s = Some (Ack True, s') \<and>
          globalTimerState s' = Some t \<and>
          fullBlock t = seg + gr \<and>
          blocks t = tot div (seg + gr) \<and>
          remainingTime t = tot mod (seg + gr) \<and>
          blocks t * fullBlock t + remainingTime t = tot \<and>
          0 \<le> remainingTime t \<and> remainingTime t < fullBlock t \<and>
          currentBlock t = 0 \<and> isWorkTime t \<and> currentTime t = seg * 60 \<and>
          onMessage now' GET_TIMER_STATE s' = Some (Snapshot (Some t) False, s')"
proof -
  from v have pos: "0 < seg + gr" by (auto simp: valid_config_def)
  from start_valid [OF v, of now s] obtain s0 t0 where
    st: "startSegmentedTimer now tot seg gr s = Some s0" and run: "running s0 t0"
    and t0: "t0 = \<lparr>total = tot, segment = seg, grace = gr, fullBlock = js_add seg gr,
                    blocks = js_floor_quotient tot (js_add seg gr),
                    remainingTime = js_rem tot (js_add seg gr),
                    currentBlock = 0, currentTime = js_mul seg 60, isWorkTime = True,
                    startTime = now\<rparr>"
    by blast
  have f: "fullBlock t0 = seg + gr" "blocks t0 = tot div (seg + gr)"
    "remainingTime t0 = tot mod (seg + gr)" "currentBlock t0 = 0" "isWorkTime t0"
    "currentTime t0 = seg * 60"
    unfolding t0 by (simp_all add: start_exact [OF v x])
  have "tot div (seg + gr) * (seg + gr) + tot mod (seg + gr) = tot" by (rule div_mult_mod_eq)
  moreover have "0 \<le> tot mod (seg + gr)" "tot mod (seg + gr) < seg + gr"
    using pos by simp_all
  ultimately show ?thesis
    using st run f by (auto simp: running_def)
qed

theorem start_initial_state_witness:
  "valid_config 50 20 5 \<and> exact_config 50 20 5 \<and>
   (\<exists>s' t. onMessage 0 (START_TIMER 50 20 5) initial_scheduler = Some (Ack True, s') \<and>
          globalTimerState s' = Some t \<and>
          blocks t = 2 \<and> remainingTime t = 0 \<and>
          currentBlock t = 0 \<and> isWorkTime t \<and> currentTime t = 1200 \<and>
          onMessage 1 GET_TIMER_STATE s' = Some (Snapshot (Some t) False, s'))"
proof -
  have v: "valid_config 50 20 5" by (simp add: valid_config_def)
  have x: "exact_config 50 20 5" by (simp add: exact_config_def)
  from start_initial_state [OF v x, of 0 initial_scheduler 1] show ?thesis
    using v x by auto
qed

text \<open>
  Claim C1 as stated fails outside the exact range, where the sums and products are
  rounded to doubles. The valid configuration of total \<open>2^53 - 1\<close>, segment \<open>2^53 - 2\<close>
  and grace 1 is given the \<open>currentTime\<close> 540431955284459392, while \<open>segment * 60\<close> is
  540431955284459400; and the valid configuration of total 50, segment 20 and grace
  \<open>10^18\<close> is given the \<open>fullBlock\<close> \<open>10^18\<close>, while \<open>segment + grace\<close> is
  \<open>10^18 + 20\<close>.
\<close>

theorem start_rounded_counterexample:
  "valid_config 9007199254740991 9007199254740990 1 \<and>
   map_option (\<lambda>r. map_option currentTime (globalTimerState (snd r)))
     (onMessage 0 (START_TIMER 9007199254740991 9007199254740990 1) initial_scheduler)
     = Some (Some 540431955284459392) \<and>
   9007199254740990 * 60 = (540431955284459400 :: int) \<and>
   valid_config 50 20 1000000000000000000 \<and>
   map_option (\<lambda>r. map_option fullBlock (globalTimerState (snd r)))
     (onMessage 0 (START_TIMER 50 20 1000000000000000000) initial_scheduler)
     = Some (Some 1000000000000000000) \<and>
   20 + 1000000000000000000 = (1000000000000000020 :: int)"
  by code_simp

text \<open>
  Claim C2, amended. For every valid configuration in the exact range with a grace period
  of at least one minute, a started session reaches Idle at some tick \<open>K\<close> with
  \<open>0 < K \<le> total * 60\<close>: the timer state is present after every smaller number of ticks,
  absent after every number of ticks from \<open>K\<close> on, and the ticks after the \<open>K\<close>-th
  change nothing in the scheduler.
\<close>

theorem session_reaches_idle_once:
  assumes v: "valid_config tot seg gr" and g: "0 < gr" and x: "exact_config tot seg gr"
  shows "\<exists>s0 K. startSegmentedTimer now tot seg gr s = Some s0 \<and>
           0 < K \<and> K \<le> nat (tot * 60) \<and>
           (\<forall>j<K. globalTimerState (ticks j s0) \<noteq> None) \<and>
           (\<forall>j\<ge>K. globalTimerState (ticks j s0) = None \<and> ticks j s0 = ticks K s0)"
proof -
  from session_length [OF v x, of now s] obtain s0 t0 where
    st: "startSegmentedTimer now tot seg gr s = Some s0"
    and t0: "globalTimerState s0 = Some t0"
    and len: "ticks_left t0 =
             (if tot div (seg + gr) = 0 then seg * 60
              else seg * 60 + (tot div (seg + gr) - 1) * (seg * 60 + max 1 (gr * 60)) +
                   (if 0 < tot mod (seg + gr) then max 1 (gr * 60) + tot mod (seg + gr) * 60 else 0))"
    and before: "\<forall>j. int j < ticks_left t0 \<longrightarrow> globalTimerState (ticks j s0) \<noteq> None"
    and after: "\<forall>j. ticks_left t0 \<le> int j \<longrightarrow> globalTimerState (ticks j s0) = None"
    by blast
  define K where "K = nat (ticks_left t0)"
  have "0 < ticks_left t0"
    using before [rule_format, of 0] after [rule_format, of 0] t0 by (cases "0 < ticks_left t0") auto
  then have K: "int K = ticks_left t0" and Kpos: "0 < K" by (simp_all add: K_def)
  have "ticks_left t0 \<le> tot * 60"
    unfolding len using v g by (rule session_ticks_bound)
  then have Kle: "K \<le> nat (tot * 60)" by (simp add: K_def)
  have b: "globalTimerState (ticks j s0) \<noteq> None" if "j < K" for j
    using before that K by simp
  have a: "globalTimerState (ticks j s0) = None \<and> ticks j s0 = ticks K s0" if "K \<le> j" for j
  proof -
    from that obtain d where d: "j = K + d" using le_Suc_ex by blast
    have idle: "globalTimerState (ticks K s0) = None" using after K by simp
    have "ticks j s0 = ticks d (ticks K s0)" unfolding d by (rule ticks_add)
    also have "\<dots> = ticks K s0" using idle by (rule ticks_idle)
    finally show ?thesis using idle by simp
  qed
  from st Kpos Kle a b show ?thesis by blast
qed

theorem session_reaches_idle_once_witness:
  "valid_config 3 1 1 \<and> (0::int) < 1 \<and> exact_config 3 1 1 \<and>
   (\<exists>s0 K. startSegmentedTimer 0 3 1 1 initial_scheduler = Some s0 \<and>
           0 < K \<and> K \<le> nat (3 * 60) \<and>
           (\<forall>j<K. globalTimerState (ticks j s0) \<noteq> None) \<and>
           (\<forall>j\<ge>K. globalTimerState (ticks j s0) = None \<and> ticks j s0 = ticks K s0))"
proof -
  have v: "valid_config 3 1 1" by (simp add: valid_config_def)
  have g: "(0::int) < 1" by simp
  have x: "exact_config 3 1 1" by (simp add: exact_config_def)
  from session_reaches_idle_once [OF v g x, of 0 initial_scheduler] v g x show ?thesis
    by simp
qed

text \<open>
  Claim C2 as stated fails in two ways. With a grace period of zero a break still takes
  one tick, so the session of total 2, segment 1 and grace 0 is not Idle after \<open>2 * 60\<close>
  ticks. And outside the exact range the countdown can stand still: the session of total
  300239975158035, segment 300239975158034 and grace 1 starts with the \<open>currentTime\<close>
  18014398509482040, a double from which subtracting one gives the same double again, so
  no number of ticks makes it Idle.
\<close>

theorem session_not_idle_counterexample:
  "valid_config 2 1 0 \<and>
   startSegmentedTimer 0 2 1 0 initial_scheduler \<noteq> None \<and>
   globalTimerState (ticks (nat (2 * 60)) (the (startSegmentedTimer 0 2 1 0 initial_scheduler)))
     \<noteq> None \<and>
   valid_config 300239975158035 300239975158034 1 \<and>
   startSegmentedTimer 0 300239975158035 300239975158034 1 initial_scheduler \<noteq> None \<and>
   (\<forall>n. globalTimerState
          (ticks n (the (startSegmentedTimer 0 300239975158035 300239975158034 1
                           initial_scheduler)))
        \<noteq> None)"
proof -
  have zero: "valid_config 2 1 0 \<and>
   startSegmentedTimer 0 2 1 0 initial_scheduler \<noteq> None \<and>
   globalTimerState (ticks (nat (2 * 60)) (the (startSegmentedTimer 0 2 1 0 initial_scheduler)))
     \<noteq> None"
    by code_simp
  have v: "valid_config 300239975158035 300239975158034 1" by (simp add: valid_config_def)
  from rounded_example_start have
    st: "startSegmentedTimer 0 300239975158035 300239975158034 1 initial_scheduler \<noteq> None"
    and run: "running (the (startSegmentedTimer 0 300239975158035 300239975158034 1
                              initial_scheduler)) rounded_example"
    by simp_all
  have "globalTimerState
          (ticks n (the (startSegmentedTimer 0 300239975158035 300239975158034 1
                           initial_scheduler)))
        \<noteq> None" for n
    using stuck_ticks [OF run rounded_example_stuck, of n] by (simp add: running_def)
  with zero v st show ?thesis by blast
qed

text \<open>
  Claim C3. In every reachable scheduler with a timer state: when the work phase of the
  last regular block counts down to zero and no minutes remain for a tail, the tick emits
  the session-complete notification and leaves no timer state, so no break is entered;
  whenever a tick ends the session, the session was in a work phase and the tick emitted
  session-complete; and from a work phase after which no work remains, no number of ticks
  leads to a break.
\<close>

theorem session_ends_on_work:
  assumes r: "reachable s" and st: "globalTimerState s = Some t"
  shows "(isWorkTime t \<and> \<not> globalIsPaused s \<and> currentTime t \<le> 1 \<and>
          remainingTime t = 0 \<and> currentBlock t = blocks t - 1
            \<longrightarrow> globalTimerState (tick s) = None \<and>
                notifications (tick s) = notifications s @ [Session_Complete]) \<and>
         (globalTimerState (tick s) = None
            \<longrightarrow> isWorkTime t \<and>
                notifications (tick s) = notifications s @ [Session_Complete]) \<and>
         (isWorkTime t \<and>
          \<not> (currentBlock t < blocks t - 1 \<or>
             (currentBlock t = blocks t - 1 \<and> 0 < remainingTime t))
            \<longrightarrow> (\<forall>n t'. globalTimerState (ticks n s) = Some t' \<longrightarrow> isWorkTime t'))"
proof -
  note si = reachable_sched_inv [OF r]
  from si st have inv: "session_inv t" and iv: "globalTimerInterval s"
    by (simp_all add: sched_inv_def)
  have last_block: "globalTimerState (tick s) = None \<and>
                notifications (tick s) = notifications s @ [Session_Complete]"
    if a: "isWorkTime t \<and> \<not> globalIsPaused s \<and> currentTime t \<le> 1 \<and>
          remainingTime t = 0 \<and> currentBlock t = blocks t - 1"
  proof -
    from inv have "0 < currentTime t" using a by (simp add: session_inv_def)
    with a have ct: "currentTime t = 1" by simp
    have dec: "js_sub (currentTime t) 1 = 0" unfolding ct by (simp add: js_exact)
    from a have fin: "\<not> (currentBlock t < blocks t - 1 \<or>
             (currentBlock t = blocks t - 1 \<and> 0 < remainingTime t))" by simp
    from advance_final_work [OF inv _ fin] a dec
    have "advance t = None \<or> advance t = Some (t\<lparr>currentTime := 0\<rparr>)" by simp
    moreover have "advance t \<noteq> Some (t\<lparr>currentTime := 0\<rparr>)"
    proof
      assume "advance t = Some (t\<lparr>currentTime := 0\<rparr>)"
      with inv have "session_inv (t\<lparr>currentTime := 0\<rparr>)" by (rule advance_session_inv)
      with a show False by (simp add: session_inv_def)
    qed
    ultimately have "advance t = None" by simp
    then have "globalTimerState (tick s) = None"
      using st iv a by (simp add: tick_state_proj)
    with st show ?thesis by (simp add: tick_complete_notifies)
  qed
  have on_work: "isWorkTime t \<and> notifications (tick s) = notifications s @ [Session_Complete]"
    if idle: "globalTimerState (tick s) = None"
  proof -
    have "isWorkTime t"
    proof (rule ccontr)
      assume "\<not> isWorkTime t"
      with inv have "advance t \<noteq> None" by (rule advance_break)
      with idle st show False by (simp add: tick_state_proj split: if_splits)
    qed
    with st idle show ?thesis by (simp add: tick_complete_notifies)
  qed
  have no_break: "\<forall>n t'. globalTimerState (ticks n s) = Some t' \<longrightarrow> isWorkTime t'"
    if "isWorkTime t \<and>
          \<not> (currentBlock t < blocks t - 1 \<or>
             (currentBlock t = blocks t - 1 \<and> 0 < remainingTime t))"
    using ticks_final_work [OF si st] that by blast
  from last_block on_work no_break show ?thesis by blast
qed

theorem session_ends_on_work_witness:
  "reachable last_second_example \<and>
   globalTimerState last_second_example =
     Some \<lparr>total = 2, segment = 1, grace = 1, fullBlock = 2, blocks = 1, remainingTime = 0,
           currentBlock = 0, currentTime = 1, isWorkTime = True, startTime = 0\<rparr> \<and>
   globalTimerState (tick last_second_example) = None \<and>
   notifications (tick last_second_example)
     = notifications last_second_example @ [Session_Complete]"
  using session_ends_on_work [OF last_second_example_reachable last_second_example_state]
    last_second_example_reachable last_second_example_state last_second_example_running
  by simp

text \<open>
  Claim C4. In every scheduler reachable by start (valid configurations), pause, resume,
  stop, query and ticks, a timer state that is present has \<open>currentBlock \<le> blocks\<close> and
  \<open>currentTime \<ge> 0\<close>, and so has every snapshot \<open>GET_TIMER_STATE\<close> returns; there is one
  timer state at most (the scheduler holds an optional one), and a start puts the fresh
  state of its configuration in its place, whatever was there before: the state
  \<open>startSegmentedTimer\<close> computes, which for a configuration in the exact range has
  \<open>fullBlock = segment + grace\<close>, \<open>blocks = floor(total / fullBlock)\<close>,
  \<open>remainingTime = total mod fullBlock\<close> and \<open>currentTime = segment * 60\<close>.
\<close>

theorem reachable_state_bounds:
  assumes r: "reachable s"
  shows "(\<forall>t. globalTimerState s = Some t \<longrightarrow> currentBlock t \<le> blocks t \<and> 0 \<le> currentTime t) \<and>
         (\<forall>now t p s'. onMessage now GET_TIMER_STATE s = Some (Snapshot (Some t) p, s')
             \<longrightarrow> currentBlock t \<le> blocks t \<and> 0 \<le> currentTime t) \<and>
         (\<forall>now tot seg gr. valid_config tot seg gr \<longrightarrow>
             (\<exists>s'. onMessage now (START_TIMER tot seg gr) s = Some (Ack True, s') \<and>
                   reachable s' \<and>
                   globalTimerState s' =
                     Some \<lparr>total = tot, segment = seg, grace = gr, fullBlock = js_add seg gr,
                           blocks = js_floor_quotient tot (js_add seg gr),
                           remainingTime = js_rem tot (js_add seg gr),
                           currentBlock = 0, currentTime = js_mul seg 60, isWorkTime = True,
                           startTime = now\<rparr> \<and>
                   (exact_config tot seg gr \<longrightarrow>
                      globalTimerState s' =
                        Some \<lparr>total = tot, segment = seg, grace = gr, fullBlock = seg + gr,
                              blocks = tot div (seg + gr), remainingTime = tot mod (seg + gr),
                              currentBlock = 0, currentTime = seg * 60, isWorkTime = True,
                              startTime = now\<rparr>)))"
proof -
  have bounds: "currentBlock t \<le> blocks t \<and> 0 \<le> currentTime t" if "globalTimerState s = Some t" for t
    using reachable_sched_inv [OF r] that
    by (auto simp: sched_inv_def session_inv_def split: if_splits)
  have start: "\<exists>s'. onMessage now (START_TIMER tot seg gr) s = Some (Ack True, s') \<and>
                   reachable s' \<and>
                   globalTimerState s' =
                     Some \<lparr>total = tot, segment = seg, grace = gr, fullBlock = js_add seg gr,
                           blocks = js_floor_quotient tot (js_add seg gr),
                           remainingTime = js_rem tot (js_add seg gr),
                           currentBlock = 0, currentTime = js_mul seg 60, isWorkTime = True,
                           startTime = now\<rparr> \<and>
                   (exact_config tot seg gr \<longrightarrow>
                      globalTimerState s' =
                        Some \<lparr>total = tot, segment = seg, grace = gr, fullBlock = seg + gr,
                              blocks = tot div (seg + gr), remainingTime = tot mod (seg + gr),
                              currentBlock = 0, currentTime = seg * 60, isWorkTime = True,
                              startTime = now\<rparr>)"
    if v: "valid_config tot seg gr" for now tot seg gr
  proof -
    from start_valid [OF v, of now s] obtain s0 t0 where
      st: "startSegmentedTimer now tot seg gr s = Some s0"
      and run: "running s0 t0"
      and t0: "t0 = \<lparr>total = tot, segment = seg, grace = gr, fullBlock = js_add seg gr,
                    blocks = js_floor_quotient tot (js_add seg gr),
                    remainingTime = js_rem tot (js_add seg gr),
                    currentBlock = 0, currentTime = js_mul seg 60, isWorkTime = True,
                    startTime = now\<rparr>"
      by blast
    have "reachable (the (startSegmentedTimer now tot seg gr s))"
      using r v by (rule reachable_start)
    with st have rs: "reachable s0" by simp
    have ex: "globalTimerState s0 =
                        Some \<lparr>total = tot, segment = seg, grace = gr, fullBlock = seg + gr,
                              blocks = tot div (seg + gr), remainingTime = tot mod (seg + gr),
                              currentBlock = 0, currentTime = seg * 60, isWorkTime = True,
                              startTime = now\<rparr>"
      if x: "exact_config tot seg gr"
      using run t0 start_exact [OF v x] by (simp add: running_def)
    have gs: "globalTimerState s0 = Some t0" using run by (simp add: running_def)
    show ?thesis
    proof (intro exI conjI impI)
      show "onMessage now (START_TIMER tot seg gr) s = Some (Ack True, s0)" using st by simp
      show "reachable s0" by (rule rs)
      show "globalTimerState s0 =
                     Some \<lparr>total = tot, segment = seg, grace = gr, fullBlock = js_add seg gr,
                           blocks = js_floor_quotient tot (js_add seg gr),
                           remainingTime = js_rem tot (js_add seg gr),
                           currentBlock = 0, currentTime = js_mul seg 60, isWorkTime = True,
                           startTime = now\<rparr>" using gs t0 by simp
      show "globalTimerState s0 =
                        Some \<lparr>total = tot, segment = seg, grace = gr, fullBlock = seg + gr,
                              blocks = tot div (seg + gr), remainingTime = tot mod (seg + gr),
                              currentBlock = 0, currentTime = seg * 60, isWorkTime = True,
                              startTime = now\<rparr>" if "exact_config tot seg gr"
        using that by (rule ex)
    qed
  qed
  from bounds start show ?thesis by auto
qed

theorem reachable_state_bounds_witness:
  "reachable last_second_example \<and>
   globalTimerState last_second_example \<noteq> None \<and>
   currentBlock (the (globalTimerState last_second_example))
     \<le> blocks (the (globalTimerState last_second_example)) \<and>
   0 \<le> currentTime (the (globalTimerState last_second_example)) \<and>
   valid_config 50 20 5 \<and> exact_config 50 20 5 \<and>
   (\<exists>s'. onMessage 7 (START_TIMER 50 20 5) last_second_example = Some (Ack True, s') \<and>
         globalTimerState s' =
           Some \<lparr>total = 50, segment = 20, grace = 5, fullBlock = 25,
                 blocks = 2, remainingTime = 0,
                 currentBlock = 0, currentTime = 1200, isWorkTime = True,
                 startTime = 7\<rparr>)"
proof -
  have v: "valid_config 50 20 5" by (simp add: valid_config_def)
  have x: "exact_config 50 20 5" by (simp add: exact_config_def)
  from reachable_state_bounds [OF last_second_example_reachable]
  have a: "\<forall>t. globalTimerState last_second_example = Some t \<longrightarrow> currentBlock t \<le> blocks t \<and> 0 \<le> currentTime t"
    and b: "\<forall>now tot seg gr. valid_config tot seg gr \<longrightarrow>
             (\<exists>s'. onMessage now (START_TIMER tot seg gr) last_second_example = Some (Ack True, s') \<and>
                   (exact_config tot seg gr \<longrightarrow>
                      globalTimerState s' =
                        Some \<lparr>total = tot, segment = seg, grace = gr, fullBlock = seg + gr,
                              blocks = tot div (seg + gr), remainingTime = tot mod (seg + gr),
                              currentBlock = 0, currentTime = seg * 60, isWorkTime = True,
                              startTime = now\<rparr>))"
    by blast+
  from b [rule_format, OF v, of 7] x obtain s' where
    "onMessage 7 (START_TIMER 50 20 5) last_second_example = Some (Ack True, s')"
    "globalTimerState s' =
           Some \<lparr>total = 50, segment = 20, grace = 5, fullBlock = 25,
                 blocks = 2, remainingTime = 0,
                 currentBlock = 0, currentTime = 1200, isWorkTime = True,
                 startTime = 7\<rparr>"
    by auto
  with a v x last_second_example_reachable last_second_example_state show ?thesis by auto
qed

subsection \<open>Pause and resume\<close>

lemma tick_core_cong:
  assumes "globalTimerState s = globalTimerState s'" "globalIsPaused s = globalIsPaused s'"
    "globalTimerInterval s = globalTimerInterval s'"
  shows "globalTimerState (tick s) = globalTimerState (tick s') \<and>
         globalIsPaused (tick s) = globalIsPaused (tick s') \<and>
         globalTimerInterval (tick s) = globalTimerInterval (tick s')"
  using assms by (simp add: tick_state_proj tick_flags_proj)

lemma ticks_core_cong:
  assumes "globalTimerState s = globalTimerState s'" "globalIsPaused s = globalIsPaused s'"
    "globalTimerInterval s = globalTimerInterval s'"
  shows "globalTimerState (ticks n s) = globalTimerState (ticks n s')"
  using assms
proof (induction n arbitrary: s s')
  case 0
  then show ?case by simp
next
  case (Suc n)
  from tick_core_cong [OF Suc.prems] show ?case
    using Suc.IH [of "tick s" "tick s'"] by simp
qed

lemma paused_example_paused: "globalIsPaused paused_example"
  by (simp add: paused_example_def)

text \<open>
  Claim C5. While the scheduler is paused, any number of ticks leaves the whole scheduler
  unchanged, so the timer state with its \<open>currentTime\<close>, \<open>currentBlock\<close> and
  \<open>isWorkTime\<close> is frozen. Resuming clears the paused flag and changes neither the timer
  state, nor the interval, nor the notifications (it also rewrites the stored snapshot);
  and after a pause of any length the resumed session passes through the same timer
  states, tick by tick, as the session that was never paused.
\<close>

theorem paused_ticks_freeze:
  assumes p: "globalIsPaused s"
  shows "ticks n s = s \<and>
         globalTimerState (resumeBackgroundTimer (ticks n s)) = globalTimerState s \<and>
         globalTimerInterval (resumeBackgroundTimer (ticks n s)) = globalTimerInterval s \<and>
         notifications (resumeBackgroundTimer (ticks n s)) = notifications s \<and>
         \<not> globalIsPaused (resumeBackgroundTimer (ticks n s)) \<and>
         (\<forall>s0 m. \<not> globalIsPaused s0 \<and> s = pauseBackgroundTimer s0 \<longrightarrow>
            globalTimerState (ticks m (resumeBackgroundTimer (ticks n s)))
              = globalTimerState (ticks m s0))"
proof -
  have fr: "ticks n s = s" using p by (rule ticks_paused)
  have cont: "globalTimerState (ticks m (resumeBackgroundTimer (ticks n s)))
              = globalTimerState (ticks m s0)"
    if "\<not> globalIsPaused s0 \<and> s = pauseBackgroundTimer s0" for s0 m
    unfolding fr using that by (intro ticks_core_cong) simp_all
  from fr cont show ?thesis by simp
qed

theorem paused_ticks_freeze_witness:
  "globalIsPaused paused_example \<and>
   ticks 5 paused_example = paused_example \<and>
   globalTimerState paused_example =
     Some \<lparr>total = 50, segment = 20, grace = 5, fullBlock = 25, blocks = 2, remainingTime = 0,
           currentBlock = 0, currentTime = 1190, isWorkTime = True, startTime = 0\<rparr> \<and>
   globalTimerState (resumeBackgroundTimer (ticks 5 paused_example))
     = globalTimerState paused_example \<and>
   globalTimerState (ticks 1 (resumeBackgroundTimer (ticks 5 paused_example))) =
     Some \<lparr>total = 50, segment = 20, grace = 5, fullBlock = 25, blocks = 2, remainingTime = 0,
           currentBlock = 0, currentTime = 1189, isWorkTime = True, startTime = 0\<rparr>"
proof -
  have st: "globalTimerState paused_example =
     Some \<lparr>total = 50, segment = 20, grace = 5, fullBlock = 25, blocks = 2, remainingTime = 0,
           currentBlock = 0, currentTime = 1190, isWorkTime = True, startTime = 0\<rparr>"
    unfolding paused_example_def by code_simp
  have iv: "globalTimerInterval paused_example"
    unfolding paused_example_def by code_simp
  from paused_ticks_freeze [OF paused_example_paused, of 5]
  have fr: "ticks 5 paused_example = paused_example" by blast
  show ?thesis
    using paused_example_paused fr st iv
    by (simp add: tick_state_proj advance_def Let_def js_exact)
qed

subsection \<open>Rejected starts and commands while idle\<close>

text \<open>The listener itself applies no check to the configuration it is sent: a start with
  segment equal to total, delivered to the scheduler directly, installs a timer state.\<close>

lemma start_message_not_validated:
  "\<not> valid_config 20 20 5 \<and>
   map_option (\<lambda>r. globalTimerState (snd r) = None)
     (onMessage 0 (START_TIMER 20 20 5) initial_scheduler) = Some False"
proof -
  have "js_add 20 5 \<noteq> 0" by (simp add: js_exact)
  then show ?thesis by (simp add: valid_config_def startSegmentedTimer_Some)
qed

text \<open>
  Claim C6, amended. The start button rejects every integer configuration that is not
  valid (total or segment not positive, grace negative, segment not below total): it
  alerts, sends no message, and the scheduler is unchanged; a valid one is sent on as it
  is. While no timer state is present, pause, resume and stop are acknowledged with
  success, leave the timer state absent and create no notification; after resume and
  after stop the query answers absent and not paused, and after pause it answers absent
  and paused.
\<close>

theorem command_failure_semantics:
  "(\<not> valid_config tot seg gr \<longrightarrow>
      (\<exists>text. startBtn_click (Some tot) (Some seg) (Some gr) = Alerted text) \<and>
      click_start now (Some tot) (Some seg) (Some gr) s = Some s) \<and>
   (valid_config tot seg gr \<longrightarrow>
      startBtn_click (Some tot) (Some seg) (Some gr) = Sent tot seg (Some gr)) \<and>
   (globalTimerState s = None \<longrightarrow>
      onMessage now PAUSE_TIMER s = Some (Ack True, pauseBackgroundTimer s) \<and>
      onMessage now GET_TIMER_STATE (pauseBackgroundTimer s)
        = Some (Snapshot None True, pauseBackgroundTimer s) \<and>
      onMessage now RESUME_TIMER s = Some (Ack True, resumeBackgroundTimer s) \<and>
      onMessage now GET_TIMER_STATE (resumeBackgroundTimer s)
        = Some (Snapshot None False, resumeBackgroundTimer s) \<and>
      onMessage now STOP_TIMER s = Some (Ack True, stopBackgroundTimer s) \<and>
      onMessage now GET_TIMER_STATE (stopBackgroundTimer s)
        = Some (Snapshot None False, stopBackgroundTimer s) \<and>
      notifications (pauseBackgroundTimer s) = notifications s \<and>
      notifications (resumeBackgroundTimer s) = notifications s \<and>
      notifications (stopBackgroundTimer s) = notifications s)"
  by (auto simp: valid_config_def startBtn_click_def click_start_def)

theorem command_failure_semantics_witness:
  "\<not> valid_config 20 20 5 \<and>
   startBtn_click (Some 20) (Some 20) (Some 5)
     = Alerted ''Segment length must be less than total time'' \<and>
   click_start 0 (Some 20) (Some 20) (Some 5) last_second_example = Some last_second_example \<and>
   valid_config 50 20 5 \<and>
   startBtn_click (Some 50) (Some 20) (Some 5) = Sent 50 20 (Some 5) \<and>
   globalTimerState initial_scheduler = None \<and>
   onMessage 0 RESUME_TIMER initial_scheduler
     = Some (Ack True, resumeBackgroundTimer initial_scheduler) \<and>
   onMessage 0 GET_TIMER_STATE (resumeBackgroundTimer initial_scheduler)
     = Some (Snapshot None False, resumeBackgroundTimer initial_scheduler)"
  using command_failure_semantics [of 20 20 5 0 last_second_example]
    command_failure_semantics [of 50 20 5 0 initial_scheduler]
  by (auto simp: valid_config_def initial_scheduler_def startBtn_click_def)

text \<open>
  Claim C6 as stated fails for pause: in the freshly loaded scheduler, which is idle, the
  query answers not paused before a pause and paused after it.
\<close>

theorem pause_while_idle_counterexample:
  "globalTimerState initial_scheduler = None \<and>
   onMessage 0 PAUSE_TIMER initial_scheduler
     = Some (Ack True, pauseBackgroundTimer initial_scheduler) \<and>
   map_option fst (onMessage 0 GET_TIMER_STATE initial_scheduler)
     = Some (Snapshot None False) \<and>
   map_option fst (onMessage 0 GET_TIMER_STATE (pauseBackgroundTimer initial_scheduler))
     = Some (Snapshot None True)"
  by (simp add: initial_scheduler_def)

section \<open>Properties of the gateway\<close>

lemma safeParse_dreamText:
  assumes dt: "field ''dreamText'' b = Some (JStr txt)"
    and u: "case field ''userId'' b of None \<Rightarrow> True | Some j \<Rightarrow> is_string j"
    and ts: "case field ''timestamp'' b of None \<Rightarrow> True | Some j \<Rightarrow> is_number j"
  shows "DreamAnalysisSchema_safeParse tm (Some b) =
     (if length txt < 20
      then Inl [Issue [''dreamText''] ''Dream text must be at least 20 characters'']
      else if 2000 < length txt
      then Inl [Issue [''dreamText''] ''Dream text cannot exceed 2000 characters'']
      else Inr txt)"
proof -
  from dt obtain kv where b: "b = JObj kv" by (cases b) simp_all
  from dt u ts show ?thesis
    unfolding b
    by (auto simp: DreamAnalysisSchema_safeParse_def dreamText_issues_def optional_issues_def
        split: option.splits)
qed

lemma accepted_status:
  assumes "DreamAnalysisSchema_safeParse (type_message env) b = Inr txt"
  shows "snd (analyzeDream env b) = [''Analyze this dream: '' @ txt] \<and>
         status (fst (analyzeDream env b)) \<noteq> 400"
  using assms
  by (auto simp: analyzeDream_def Let_def failure_def
      split: completion_result.splits option.splits list.splits)

lemma analysis_safeParse_Some_iff:
  "analysis_safeParse j \<noteq> None \<longleftrightarrow>
     (\<exists>e th i sy c. field ''emotions'' j = Some e \<and> is_string_array e \<and>
        field ''themes'' j = Some th \<and> is_string_array th \<and>
        field ''interpretation'' j = Some (JStr i) \<and>
        field ''symbols'' j = Some sy \<and> is_string_array sy \<and>
        field ''confidence'' j = Some (JNum c) \<and> 0 \<le> c \<and> c \<le> 1)"
  by (auto simp: analysis_safeParse_def split: option.splits json.splits)

text \<open>
  Claim C7. For a request body whose \<open>dreamText\<close> is a string (and whose optional
  properties, if present, have their types): a text shorter than 20 or longer than 2000
  is answered with status 400 and a message that names \<open>dreamText\<close> and the violated
  bound, and no message is sent to the completion service; a text of length 20 to 2000,
  both included, passes validation, and the handler sends it to the completion service.
  The instance checked after it has the lengths 19, 2001, 20 and 2000.
\<close>

theorem dreamText_length_validation:
  assumes dt: "field ''dreamText'' b = Some (JStr txt)"
    and u: "case field ''userId'' b of None \<Rightarrow> True | Some j \<Rightarrow> is_string j"
    and ts: "case field ''timestamp'' b of None \<Rightarrow> True | Some j \<Rightarrow> is_number j"
  shows "(length txt < 20 \<longrightarrow>
            analyzeDream env (Some b) =
              (failure 400
                 ''Validation failed: dreamText: Dream text must be at least 20 characters''
                 (requestId env), [])) \<and>
         (2000 < length txt \<longrightarrow>
            analyzeDream env (Some b) =
              (failure 400
                 ''Validation failed: dreamText: Dream text cannot exceed 2000 characters''
                 (requestId env), [])) \<and>
         (20 \<le> length txt \<and> length txt \<le> 2000 \<longrightarrow>
            snd (analyzeDream env (Some b)) = [''Analyze this dream: '' @ txt] \<and>
            status (fst (analyzeDream env (Some b))) \<noteq> 400)"
proof -
  note sp = safeParse_dreamText [OF dt u ts, of "type_message env"]
  have short: "analyzeDream env (Some b) =
              (failure 400
                 ''Validation failed: dreamText: Dream text must be at least 20 characters''
                 (requestId env), [])" if "length txt < 20"
    using that by (simp add: analyzeDream_def sp render_issue_def)
  have long: "analyzeDream env (Some b) =
              (failure 400
                 ''Validation failed: dreamText: Dream text cannot exceed 2000 characters''
                 (requestId env), [])" if "2000 < length txt"
    using that by (simp add: analyzeDream_def sp render_issue_def)
  have ok: "snd (analyzeDream env (Some b)) = [''Analyze this dream: '' @ txt] \<and>
            status (fst (analyzeDream env (Some b))) \<noteq> 400"
    if "20 \<le> length txt \<and> length txt \<le> 2000"
  proof -
    from that sp have "DreamAnalysisSchema_safeParse (type_message env) (Some b) = Inr txt"
      by simp
    then show ?thesis by (rule accepted_status)
  qed
  from short long ok show ?thesis by blast
qed

theorem dreamText_length_validation_witness:
  "analyzeDream (example_env complete_text)
      (Some (JObj [(''dreamText'', JStr (replicate 19 CHR ''a''))]))
     = (failure 400
          ''Validation failed: dreamText: Dream text must be at least 20 characters''
          ''req_1_abc'', []) \<and>
   analyzeDream (example_env complete_text)
      (Some (JObj [(''dreamText'', JStr (replicate 2001 CHR ''a''))]))
     = (failure 400
          ''Validation failed: dreamText: Dream text cannot exceed 2000 characters''
          ''req_1_abc'', []) \<and>
   snd (analyzeDream (example_env complete_text)
      (Some (JObj [(''dreamText'', JStr (replicate 20 CHR ''a''))])))
     = [''Analyze this dream: '' @ replicate 20 CHR ''a''] \<and>
   snd (analyzeDream (example_env complete_text)
      (Some (JObj [(''dreamText'', JStr (replicate 2000 CHR ''a''))])))
     = [''Analyze this dream: '' @ replicate 2000 CHR ''a'']"
  using
    dreamText_length_validation [of "JObj [(''dreamText'', JStr (replicate 19 CHR ''a''))]"
      "replicate 19 CHR ''a''" "example_env complete_text"]
    dreamText_length_validation [of "JObj [(''dreamText'', JStr (replicate 2001 CHR ''a''))]"
      "replicate 2001 CHR ''a''" "example_env complete_text"]
    dreamText_length_validation [of "JObj [(''dreamText'', JStr (replicate 20 CHR ''a''))]"
      "replicate 20 CHR ''a''" "example_env complete_text"]
    dreamText_length_validation [of "JObj [(''dreamText'', JStr (replicate 2000 CHR ''a''))]"
      "replicate 2000 CHR ''a''" "example_env complete_text"]
  by (simp add: example_env_def)

text \<open>
  Claim C8. For a request that passed validation: when the first choice of the completion
  is text that \<open>JSON.parse\<close> rejects, the response is status 500 with the fixed message
  "Failed to parse dream analysis response"; when it parses to a value that does not have
  the five properties of the schema (string arrays \<open>emotions\<close>, \<open>themes\<close>, \<open>symbols\<close>,
  a string \<open>interpretation\<close>, a number \<open>confidence\<close> from 0 to 1), the response is
  status 500 with the fixed message "Invalid dream analysis response format". Either
  response holds the request id and the message only: nothing of the upstream text.
\<close>

theorem upstream_format_errors:
  assumes v: "DreamAnalysisSchema_safeParse (type_message env) b = Inr txt"
    and c: "create_completion env (''Analyze this dream: '' @ txt)
              = Completion (Some content # rest)"
  shows "(json_parse env content = None \<longrightarrow>
            fst (analyzeDream env b) =
              failure 500 ''Failed to parse dream analysis response'' (requestId env)) \<and>
         (\<forall>j. json_parse env content = Some j \<and>
              \<not> (\<exists>e th i sy cf.
                    field ''emotions'' j = Some e \<and> is_string_array e \<and>
                    field ''themes'' j = Some th \<and> is_string_array th \<and>
                    field ''interpretation'' j = Some (JStr i) \<and>
                    field ''symbols'' j = Some sy \<and> is_string_array sy \<and>
                    field ''confidence'' j = Some (JNum cf) \<and> 0 \<le> cf \<and> cf \<le> 1) \<longrightarrow>
            fst (analyzeDream env b) =
              failure 500 ''Invalid dream analysis response format'' (requestId env))"
proof -
  have parse: "fst (analyzeDream env b) =
              failure 500 ''Failed to parse dream analysis response'' (requestId env)"
    if "json_parse env content = None"
    using v c that by (simp add: analyzeDream_def Let_def)
  have shape: "fst (analyzeDream env b) =
              failure 500 ''Invalid dream analysis response format'' (requestId env)"
    if "json_parse env content = Some j" "analysis_safeParse j = None" for j
    using v c that by (simp add: analyzeDream_def Let_def)
  from parse shape show ?thesis
    using analysis_safeParse_Some_iff by blast
qed

theorem upstream_format_errors_witness:
  "DreamAnalysisSchema_safeParse (type_message (example_env ''not json''))
      (Some (JObj [(''dreamText'', JStr example_dream)])) = Inr example_dream \<and>
   json_parse (example_env ''not json'') ''not json'' = None \<and>
   fst (analyzeDream (example_env ''not json'')
          (Some (JObj [(''dreamText'', JStr example_dream)])))
     = failure 500 ''Failed to parse dream analysis response'' ''req_1_abc'' \<and>
   json_parse (example_env partial_text) partial_text
     = Some (JObj [(''emotions'', jstrs [''joy''])]) \<and>
   field ''themes'' (JObj [(''emotions'', jstrs [''joy''])]) = None \<and>
   fst (analyzeDream (example_env partial_text)
          (Some (JObj [(''dreamText'', JStr example_dream)])))
     = failure 500 ''Invalid dream analysis response format'' ''req_1_abc''"
proof -
  have v: "DreamAnalysisSchema_safeParse (type_message (example_env a))
      (Some (JObj [(''dreamText'', JStr example_dream)])) = Inr example_dream" for a
    by (simp add: DreamAnalysisSchema_safeParse_def dreamText_issues_def optional_issues_def
        example_dream_def)
  have c: "create_completion (example_env a) (''Analyze this dream: '' @ example_dream)
             = Completion (Some a # [])" for a
    by (simp add: example_env_def)
  have p1: "json_parse (example_env ''not json'') ''not json'' = None"
    by (simp add: example_env_def example_parse_def complete_text_def partial_text_def)
  have p2: "json_parse (example_env partial_text) partial_text
     = Some (JObj [(''emotions'', jstrs [''joy''])])"
    by (simp add: example_env_def example_parse_def complete_text_def partial_text_def)
  have s: "field ''themes'' (JObj [(''emotions'', jstrs [''joy''])]) = None"
    by simp
  from upstream_format_errors [OF v c, of "''not json''"] p1
    upstream_format_errors [OF v c, of partial_text] p2 s v
  show ?thesis by (simp add: example_env_def)
qed

section \<open>Properties of the local analysis\<close>

lemma of_char_letter: "(of_char c :: nat) = 105 \<longleftrightarrow> c = CHR ''i''"
proof -
  have "(of_char (CHR ''i'') :: nat) = 105" by simp
  then show ?thesis by (metis of_char_eq_iff)
qed

lemma of_char_k: "(of_char c :: nat) = 107 \<longleftrightarrow> c = CHR ''k''"
proof -
  have "(of_char (CHR ''k'') :: nat) = 107" by simp
  then show ?thesis by (metis of_char_eq_iff)
qed

lemma same_letter_lower:
  assumes c: "97 \<le> (of_char c :: nat)" "(of_char c :: nat) \<le> 122"
  shows "65 \<le> u \<and> u \<le> 90 \<Longrightarrow> same_letter u c \<longleftrightarrow> u + 32 = of_char c"
    and "u < 128 \<Longrightarrow> \<not> (65 \<le> u \<and> u \<le> 90) \<Longrightarrow> same_letter u c \<longleftrightarrow> u = of_char c"
    and "same_letter 0x212A c \<longleftrightarrow> 107 = (of_char c :: nat)"
    and "128 \<le> u \<Longrightarrow> u \<noteq> 0x212A \<Longrightarrow> \<not> same_letter u c"
  using c by (auto simp: same_letter_def of_char_k)

lemma starts_with_other:
  assumes "p \<noteq> []" "\<forall>x\<in>set p. 128 \<le> x" "w < 128"
  shows "\<not> starts_with (p @ s) (w # ws)"
  using assms by (cases p) auto

lemma starts_with_lower:
  assumes na: "outside_ascii tables"
    and letters: "list_all (\<lambda>c. 97 \<le> (of_char c :: nat) \<and> (of_char c :: nat) \<le> 122) cs"
    and final: "cs \<noteq> [] \<longrightarrow> last cs \<noteq> CHR ''i''"
  shows "starts_with (lower_from tables b us) (units cs) \<longleftrightarrow> spelled_at us cs"
  using letters final
proof (induction us arbitrary: b cs)
  case Nil
  then show ?case by (cases cs) (simp_all add: units_def)
next
  case (Cons u us)
  show ?case
  proof (cases cs)
    case Nil
    then show ?thesis by (simp add: units_def)
  next
    case cs: (Cons c cs')
    from Cons.prems cs have c: "97 \<le> (of_char c :: nat)" "(of_char c :: nat) \<le> 122"
      and l': "list_all (\<lambda>c. 97 \<le> (of_char c :: nat) \<and> (of_char c :: nat) \<le> 122) cs'"
      and f': "cs' \<noteq> [] \<longrightarrow> last cs' \<noteq> CHR ''i''"
      and last_i: "cs' = [] \<longrightarrow> c \<noteq> CHR ''i''"
      by auto
    have IH: "starts_with (lower_from tables (b @ [u]) us) (units cs') \<longleftrightarrow> spelled_at us cs'"
      using Cons.IH [OF l' f'] .
    have W: "units (c # cs') = of_char c # units cs'" by (simp add: units_def)
    consider (capital) "65 \<le> u \<and> u \<le> 90"
      | (ascii) "u < 128" "\<not> (65 \<le> u \<and> u \<le> 90)"
      | (dotted) "u = 0x130"
      | (kelvin) "u = 0x212A"
      | (other) "128 \<le> u" "u \<noteq> 0x130" "u \<noteq> 0x212A"
      by linarith
    then show ?thesis
    proof cases
      case capital
      then have "lower_unit tables b u us = [u + 32]" by (simp add: lower_unit_def)
      then show ?thesis
        unfolding cs W using IH same_letter_lower(1) [OF c capital] by simp
    next
      case ascii
      then have "lower_unit tables b u us = [u]" by (simp add: lower_unit_def)
      then show ?thesis
        unfolding cs W using IH same_letter_lower(2) [OF c ascii] by simp
    next
      case dotted
      then have lu: "lower_unit tables b u us = [0x69, 0x307]" by (simp add: lower_unit_def)
      have no: "\<not> same_letter u c"
        using same_letter_lower(4) [OF c, of u] dotted by simp
      have "\<not> starts_with (0x69 # 0x307 # lower_from tables (b @ [u]) us)
                (of_char c # units cs')"
      proof (cases cs')
        case Nil
        with last_i have "(of_char c :: nat) \<noteq> 105" by (simp add: of_char_letter)
        then show ?thesis by simp
      next
        case (Cons c' cs'')
        with l' have "(of_char c' :: nat) \<le> 122" by simp
        then show ?thesis unfolding Cons by (simp add: units_def)
      qed
      with no show ?thesis unfolding cs W by (simp add: lu)
    next
      case kelvin
      then have "lower_unit tables b u us = [0x6B]" by (simp add: lower_unit_def)
      then show ?thesis
        unfolding cs W using IH same_letter_lower(3) [OF c] kelvin by simp
    next
      case other
      then have lu: "lower_unit tables b u us = tables b u us" by (simp add: lower_unit_def)
      from na other(1) have p: "tables b u us \<noteq> []" "\<forall>x\<in>set (tables b u us). 128 \<le> x"
        by (simp_all add: outside_ascii_def)
      have "(of_char c :: nat) < 128" using c by simp
      from starts_with_other [OF p this]
      have "\<not> starts_with (tables b u us @ lower_from tables (b @ [u]) us)
                (of_char c # units cs')" .
      moreover have "\<not> same_letter u c" using same_letter_lower(4) [OF c other(1,3)] .
      ultimately show ?thesis unfolding cs W by (simp add: lu)
    qed
  qed
qed

lemma includes_other:
  assumes "\<forall>x\<in>set p. 128 \<le> x" "w < 128"
  shows "js_includes (p @ s) (w # ws) \<longleftrightarrow> js_includes s (w # ws)"
  using assms by (induction p) auto

lemma includes_step:
  assumes na: "outside_ascii tables" and w: "w < 128"
  shows "js_includes (lower_from tables b (u # us)) (w # ws) \<longleftrightarrow>
           starts_with (lower_from tables b (u # us)) (w # ws) \<or>
           js_includes (lower_from tables (b @ [u]) us) (w # ws)"
proof -
  have "(\<exists>x. lower_unit tables b u us = [x]) \<or>
        lower_unit tables b u us = [0x69, 0x307] \<or>
        (128 \<le> u \<and> lower_unit tables b u us = tables b u us)"
    by (simp add: lower_unit_def)
  then consider (single) x where "lower_unit tables b u us = [x]"
    | (dotted) "lower_unit tables b u us = [0x69, 0x307]"
    | (other) "128 \<le> u" "lower_unit tables b u us = tables b u us"
    by blast
  then show ?thesis
  proof cases
    case single
    then show ?thesis by simp
  next
    case dotted
    have "w \<noteq> 0x307" using w by simp
    then show ?thesis by (auto simp: dotted)
  next
    case other
    from na other(1) have p: "tables b u us \<noteq> []" "\<forall>x\<in>set (tables b u us). 128 \<le> x"
      by (simp_all add: outside_ascii_def)
    from starts_with_other [OF p w] includes_other [OF p(2) w]
    show ?thesis by (simp add: other(2))
  qed
qed

lemma includes_lower_from:
  assumes na: "outside_ascii tables" and k: "keyword w"
  shows "js_includes (lower_from tables b us) (units w) \<longleftrightarrow> occurs_ci w us"
proof -
  from k obtain c cs where w: "w = c # cs" by (cases w) (auto simp: keyword_def)
  from k have letters: "list_all (\<lambda>c. 97 \<le> (of_char c :: nat) \<and> (of_char c :: nat) \<le> 122) w"
    and final: "w \<noteq> [] \<longrightarrow> last w \<noteq> CHR ''i''"
    by (simp_all add: keyword_def)
  have W: "units w = of_char c # units cs" by (simp add: units_def w)
  have c: "(of_char c :: nat) < 128" using letters w by simp
  show ?thesis
  proof (induction us arbitrary: b)
    case Nil
    then show ?case by (simp add: units_def w)
  next
    case (Cons u us)
    have "js_includes (lower_from tables b (u # us)) (units w) \<longleftrightarrow>
           starts_with (lower_from tables b (u # us)) (units w) \<or>
           js_includes (lower_from tables (b @ [u]) us) (units w)"
      unfolding W using na c by (rule includes_step)
    also have "\<dots> \<longleftrightarrow> spelled_at (u # us) w \<or> occurs_ci w us"
      using starts_with_lower [OF na letters final, of b "u # us"] Cons.IH by simp
    finally show ?case by simp
  qed
qed

lemma includes_lower_iff:
  assumes "outside_ascii tables" "keyword w"
  shows "js_includes (toLowerCase tables text) (units w) \<longleftrightarrow> occurs_ci w text"
  unfolding toLowerCase_def using assms by (rule includes_lower_from)

lemma emotionWords_keywords: "\<forall>entry\<in>set emotionWords. \<forall>w\<in>set (snd entry). keyword w"
  by (simp add: emotionWords_def keyword_def)

lemma themeWords_keywords: "\<forall>entry\<in>set themeWords. \<forall>w\<in>set (snd entry). keyword w"
  by (simp add: themeWords_def keyword_def)

lemma detect_iff:
  assumes na: "outside_ascii tables"
    and kw: "\<forall>entry\<in>set table. \<forall>w\<in>set (snd entry). keyword w"
    and d: "distinct (map fst table)" and m: "(c, ws) \<in> set table"
  shows "c \<in> set (detect tables table text) \<longleftrightarrow> (\<exists>w\<in>set ws. occurs_ci w text)"
proof -
  have inc: "js_includes (toLowerCase tables text) (units w) \<longleftrightarrow> occurs_ci w text"
    if "entry \<in> set table" "w \<in> set (snd entry)" for entry w
    using includes_lower_iff [OF na] kw that by blast
  have mem: "c \<in> set (detect tables table text) \<longleftrightarrow>
          (\<exists>ws'. (c, ws') \<in> set table \<and> (\<exists>w\<in>set ws'. occurs_ci w text))"
  proof
    assume "c \<in> set (detect tables table text)"
    then obtain entry where e: "entry \<in> set table" "fst entry = c"
      "\<exists>w\<in>set (snd entry). js_includes (toLowerCase tables text) (units w)"
      by (auto simp: detect_def list_ex_iff)
    then obtain w where "w \<in> set (snd entry)" "occurs_ci w text" using inc by blast
    with e(1,2) have "(c, snd entry) \<in> set table \<and> (\<exists>w\<in>set (snd entry). occurs_ci w text)"
      by auto
    then show "\<exists>ws'. (c, ws') \<in> set table \<and> (\<exists>w\<in>set ws'. occurs_ci w text)" by blast
  next
    assume "\<exists>ws'. (c, ws') \<in> set table \<and> (\<exists>w\<in>set ws'. occurs_ci w text)"
    then obtain ws' w where e: "(c, ws') \<in> set table" "w \<in> set ws'" "occurs_ci w text"
      by blast
    then have "js_includes (toLowerCase tables text) (units w)"
      using inc [of "(c, ws')" w] by simp
    with e(1,2) have "(c, ws') \<in> set (filter (\<lambda>entry. list_ex (\<lambda>word. js_includes (toLowerCase tables text)
                                                   (units word)) (snd entry)) table)"
      by (auto simp: list_ex_iff)
    then have "fst (c, ws') \<in> set (detect tables table text)"
      unfolding detect_def set_map by (rule imageI)
    then show "c \<in> set (detect tables table text)" by simp
  qed
  have uniq: "ws' = ws" if "(c, ws') \<in> set table" for ws'
    using eq_key_imp_eq_value [OF d that m] .
  show ?thesis
  proof
    assume "c \<in> set (detect tables table text)"
    with mem obtain ws' where "(c, ws') \<in> set table" "\<exists>w\<in>set ws'. occurs_ci w text"
      by blast
    with uniq [of ws'] show "\<exists>w\<in>set ws. occurs_ci w text" by blast
  next
    assume "\<exists>w\<in>set ws. occurs_ci w text"
    with m mem show "c \<in> set (detect tables table text)" by blast
  qed
qed

lemma detect_empty_iff:
  assumes na: "outside_ascii tables"
    and kw: "\<forall>entry\<in>set table. \<forall>w\<in>set (snd entry). keyword w"
  shows "detect tables table text = [] \<longleftrightarrow>
           (\<forall>(c, ws)\<in>set table. \<forall>w\<in>set ws. \<not> occurs_ci w text)"
proof -
  have inc: "js_includes (toLowerCase tables text) (units w) \<longleftrightarrow> occurs_ci w text"
    if "entry \<in> set table" "w \<in> set (snd entry)" for entry w
    using includes_lower_iff [OF na] kw that by blast
  have "detect tables table text = [] \<longleftrightarrow>
          (\<forall>entry\<in>set table.
              \<not> list_ex (\<lambda>w. js_includes (toLowerCase tables text) (units w)) (snd entry))"
    by (simp add: detect_def filter_empty_conv)
  also have "\<dots> \<longleftrightarrow> (\<forall>entry\<in>set table. \<forall>w\<in>set (snd entry).
                          \<not> js_includes (toLowerCase tables text) (units w))"
    by (simp add: list_ex_iff)
  also have "\<dots> \<longleftrightarrow> (\<forall>entry\<in>set table. \<forall>w\<in>set (snd entry). \<not> occurs_ci w text)"
    using inc by blast
  also have "\<dots> \<longleftrightarrow> (\<forall>(c, ws)\<in>set table. \<forall>w\<in>set ws. \<not> occurs_ci w text)"
    by (simp add: case_prod_unfold)
  finally show ?thesis .
qed

lemma example_tables_outside_ascii: "outside_ascii example_tables"
  by (simp add: outside_ascii_def example_tables_def)

lemma example_themes:
  "field ''themes'' (analyzeDreamLocally example_tables 0 (units example_dream))
     = Some (jstrs [''flying''])"
  by code_simp

lemma example_emotions:
  "field ''emotions'' (analyzeDreamLocally example_tables 0 (units example_dream))
     = Some (jstrs [''neutral''])"
  by code_simp

lemma capitals_example_themes:
  "field ''themes'' (analyzeDreamLocally example_tables 0 capitals_example)
     = Some (jstrs [''flying''])"
  by code_simp

lemma capitals_example_emotions:
  "field ''emotions'' (analyzeDreamLocally example_tables 0 capitals_example)
     = Some (jstrs [''joy''])"
  by code_simp

lemma capitals_example_lowered:
  "toLowerCase example_tables capitals_example = units ''we were happy under the sky''"
  by code_simp

lemma accent_lowered:
  "toLowerCase example_tables [0xC9, 0x54, 0xC9, 0x130] = [0xE9, 0x74, 0xE9, 0x69, 0x307]"
  by code_simp

text \<open>
  Claim C9. For every dream text, a sequence of UTF-16 code units, the local analysis
  returns an \<open>emotions\<close> array and a \<open>themes\<close> array such that each emotion category
  (fear, joy, sadness, anger, anxiety) is in \<open>emotions\<close> exactly when one of its keywords
  occurs in the text case-insensitively, and each theme category (flying, falling, chase,
  water, home) is in \<open>themes\<close> exactly when one of its keywords does; when no emotion
  keyword occurs \<open>emotions\<close> is \<open>["neutral"]\<close>, and when no theme keyword occurs
  \<open>themes\<close> is \<open>["general"]\<close>. The occurrence is read off the text, letter by letter in
  either case, not off its lower-cased form. The instances checked after it are the text
  "I was flying over a beautiful landscape and felt free", whose themes are
  \<open>["flying"]\<close> and whose emotions, no joy keyword occurring, are \<open>["neutral"]\<close>; and a
  text with HAPPY in capitals and with sky spelled with a capital S, the Kelvin sign and a
  capital Y, whose emotions are \<open>["joy"]\<close> and whose themes are \<open>["flying"]\<close>.
\<close>

theorem local_analysis_keywords:
  assumes na: "outside_ascii tables"
  shows
   "\<exists>E T. field ''emotions'' (analyzeDreamLocally tables now text) = Some (jstrs E) \<and>
         field ''themes'' (analyzeDreamLocally tables now text) = Some (jstrs T) \<and>
         map fst emotionWords = [''fear'', ''joy'', ''sadness'', ''anger'', ''anxiety''] \<and>
         map fst themeWords = [''flying'', ''falling'', ''chase'', ''water'', ''home''] \<and>
         (\<forall>(c, ws)\<in>set emotionWords. c \<in> set E \<longleftrightarrow> (\<exists>w\<in>set ws. occurs_ci w text)) \<and>
         (\<forall>(c, ws)\<in>set themeWords. c \<in> set T \<longleftrightarrow> (\<exists>w\<in>set ws. occurs_ci w text)) \<and>
         ((\<forall>(c, ws)\<in>set emotionWords. \<forall>w\<in>set ws. \<not> occurs_ci w text) \<longrightarrow> E = [''neutral'']) \<and>
         ((\<forall>(c, ws)\<in>set themeWords. \<forall>w\<in>set ws. \<not> occurs_ci w text) \<longrightarrow> T = [''general''])"
proof -
  define E where "E = (if length (detect tables emotionWords text) > 0
                       then detect tables emotionWords text else [''neutral''])"
  define T where "T = (if length (detect tables themeWords text) > 0
                       then detect tables themeWords text else [''general''])"
  have fe: "field ''emotions'' (analyzeDreamLocally tables now text) = Some (jstrs E)"
    and ft: "field ''themes'' (analyzeDreamLocally tables now text) = Some (jstrs T)"
    by (simp_all add: analyzeDreamLocally_def Let_def E_def T_def)
  have ke: "map fst emotionWords = [''fear'', ''joy'', ''sadness'', ''anger'', ''anxiety'']"
    by (simp add: emotionWords_def)
  have kt: "map fst themeWords = [''flying'', ''falling'', ''chase'', ''water'', ''home'']"
    by (simp add: themeWords_def)
  have de: "distinct (map fst emotionWords)" unfolding ke by simp
  have dt: "distinct (map fst themeWords)" unfolding kt by simp
  have "fst ` set emotionWords = set (map fst emotionWords)" by simp
  then have ne: "''neutral'' \<notin> fst ` set emotionWords" unfolding ke by simp
  have "fst ` set themeWords = set (map fst themeWords)" by simp
  then have ng: "''general'' \<notin> fst ` set themeWords" unfolding kt by simp
  note ee = detect_empty_iff [OF na emotionWords_keywords, of "text"]
  note te = detect_empty_iff [OF na themeWords_keywords, of "text"]
  have e: "c \<in> set E \<longleftrightarrow> (\<exists>w\<in>set ws. occurs_ci w text)" if m: "(c, ws) \<in> set emotionWords" for c ws
  proof (cases "detect tables emotionWords text = []")
    case True
    then have "\<not> (\<exists>w\<in>set ws. occurs_ci w text)" using m ee by auto
    moreover have "c \<noteq> ''neutral''" using m ne by (metis fst_conv image_eqI)
    ultimately show ?thesis using True by (simp add: E_def)
  next
    case False
    then show ?thesis
      using detect_iff [OF na emotionWords_keywords de m] by (simp add: E_def)
  qed
  have t: "c \<in> set T \<longleftrightarrow> (\<exists>w\<in>set ws. occurs_ci w text)" if m: "(c, ws) \<in> set themeWords" for c ws
  proof (cases "detect tables themeWords text = []")
    case True
    then have "\<not> (\<exists>w\<in>set ws. occurs_ci w text)" using m te by auto
    moreover have "c \<noteq> ''general''" using m ng by (metis fst_conv image_eqI)
    ultimately show ?thesis using True by (simp add: T_def)
  next
    case False
    then show ?thesis
      using detect_iff [OF na themeWords_keywords dt m] by (simp add: T_def)
  qed
  have e0: "E = [''neutral'']" if "\<forall>(c, ws)\<in>set emotionWords. \<forall>w\<in>set ws. \<not> occurs_ci w text"
    using that ee by (simp add: E_def)
  have t0: "T = [''general'']" if "\<forall>(c, ws)\<in>set themeWords. \<forall>w\<in>set ws. \<not> occurs_ci w text"
    using that te by (simp add: T_def)
  have e': "\<forall>(c, ws)\<in>set emotionWords. c \<in> set E \<longleftrightarrow> (\<exists>w\<in>set ws. occurs_ci w text)"
    using e by blast
  have t': "\<forall>(c, ws)\<in>set themeWords. c \<in> set T \<longleftrightarrow> (\<exists>w\<in>set ws. occurs_ci w text)"
    using t by blast
  show ?thesis
    using fe ft ke kt e' t' e0 t0 by (intro exI [of _ E] exI [of _ T] conjI impI) simp_all
qed

theorem local_analysis_keywords_witness:
  "outside_ascii example_tables \<and>
   field ''themes'' (analyzeDreamLocally example_tables 0 (units example_dream))
     = Some (jstrs [''flying'']) \<and>
   field ''emotions'' (analyzeDreamLocally example_tables 0 (units example_dream))
     = Some (jstrs [''neutral'']) \<and>
   field ''themes'' (analyzeDreamLocally example_tables 0 capitals_example)
     = Some (jstrs [''flying'']) \<and>
   field ''emotions'' (analyzeDreamLocally example_tables 0 capitals_example)
     = Some (jstrs [''joy'']) \<and>
   (''flying'', [''flying'', ''soaring'', ''airplane'', ''wings'', ''sky'']) \<in> set themeWords \<and>
   (''joy'', [''happy'', ''excited'', ''elated'', ''cheerful'', ''delighted'']) \<in> set emotionWords \<and>
   (\<exists>w\<in>set [''flying'', ''soaring'', ''airplane'', ''wings'', ''sky''].
       occurs_ci w (units example_dream)) \<and>
   \<not> (\<exists>w\<in>set [''happy'', ''excited'', ''elated'', ''cheerful'', ''delighted''].
       occurs_ci w (units example_dream)) \<and>
   (\<exists>w\<in>set [''flying'', ''soaring'', ''airplane'', ''wings'', ''sky''].
       occurs_ci w capitals_example) \<and>
   (\<exists>w\<in>set [''happy'', ''excited'', ''elated'', ''cheerful'', ''delighted''].
       occurs_ci w capitals_example) \<and>
   occurs_ci ''happy'' capitals_example \<and>
   occurs_ci ''sky'' capitals_example \<and>
   \<not> occurs_ci ''flying'' capitals_example"
proof -
  have inj: "jstrs xs = jstrs ys \<Longrightarrow> xs = ys" for xs ys
    using inj_map_eq_map [of JStr xs ys] by (simp add: jstrs_def inj_def)
  have mt: "(''flying'', [''flying'', ''soaring'', ''airplane'', ''wings'', ''sky'']) \<in> set themeWords"
    by (simp add: themeWords_def)
  have me: "(''joy'', [''happy'', ''excited'', ''elated'', ''cheerful'', ''delighted'']) \<in> set emotionWords"
    by (simp add: emotionWords_def)
  from local_analysis_keywords [OF example_tables_outside_ascii, of 0 "units example_dream"]
  obtain E T where
    fe: "field ''emotions'' (analyzeDreamLocally example_tables 0 (units example_dream)) = Some (jstrs E)"
    and ft: "field ''themes'' (analyzeDreamLocally example_tables 0 (units example_dream)) = Some (jstrs T)"
    and e: "\<forall>(c, ws)\<in>set emotionWords. c \<in> set E \<longleftrightarrow> (\<exists>w\<in>set ws. occurs_ci w (units example_dream))"
    and t: "\<forall>(c, ws)\<in>set themeWords. c \<in> set T \<longleftrightarrow> (\<exists>w\<in>set ws. occurs_ci w (units example_dream))"
    by blast
  from ft example_themes have T: "T = [''flying'']" using inj by simp
  from fe example_emotions have E: "E = [''neutral'']" using inj by simp
  from t mt have "''flying'' \<in> set T \<longleftrightarrow>
      (\<exists>w\<in>set [''flying'', ''soaring'', ''airplane'', ''wings'', ''sky'']. occurs_ci w (units example_dream))"
    by blast
  with T have a: "\<exists>w\<in>set [''flying'', ''soaring'', ''airplane'', ''wings'', ''sky'']. occurs_ci w (units example_dream)"
    by simp
  from e me have "''joy'' \<in> set E \<longleftrightarrow>
      (\<exists>w\<in>set [''happy'', ''excited'', ''elated'', ''cheerful'', ''delighted'']. occurs_ci w (units example_dream))"
    by blast
  with E have b: "\<not> (\<exists>w\<in>set [''happy'', ''excited'', ''elated'', ''cheerful'', ''delighted'']. occurs_ci w (units example_dream))"
    by simp
  from local_analysis_keywords [OF example_tables_outside_ascii, of 0 capitals_example]
  obtain E' T' where
    fe': "field ''emotions'' (analyzeDreamLocally example_tables 0 capitals_example) = Some (jstrs E')"
    and ft': "field ''themes'' (analyzeDreamLocally example_tables 0 capitals_example) = Some (jstrs T')"
    and e': "\<forall>(c, ws)\<in>set emotionWords. c \<in> set E' \<longleftrightarrow> (\<exists>w\<in>set ws. occurs_ci w capitals_example)"
    and t': "\<forall>(c, ws)\<in>set themeWords. c \<in> set T' \<longleftrightarrow> (\<exists>w\<in>set ws. occurs_ci w capitals_example)"
    by blast
  from ft' capitals_example_themes have T': "T' = [''flying'']" using inj by simp
  from fe' capitals_example_emotions have E': "E' = [''joy'']" using inj by simp
  from t' mt have "''flying'' \<in> set T' \<longleftrightarrow>
      (\<exists>w\<in>set [''flying'', ''soaring'', ''airplane'', ''wings'', ''sky'']. occurs_ci w capitals_example)"
    by blast
  with T' have c: "\<exists>w\<in>set [''flying'', ''soaring'', ''airplane'', ''wings'', ''sky'']. occurs_ci w capitals_example"
    by simp
  from e' me have "''joy'' \<in> set E' \<longleftrightarrow>
      (\<exists>w\<in>set [''happy'', ''excited'', ''elated'', ''cheerful'', ''delighted'']. occurs_ci w capitals_example)"
    by blast
  with E' have d: "\<exists>w\<in>set [''happy'', ''excited'', ''elated'', ''cheerful'', ''delighted'']. occurs_ci w capitals_example"
    by simp
  have h: "occurs_ci ''happy'' capitals_example" by code_simp
  have s: "occurs_ci ''sky'' capitals_example" by code_simp
  have f: "\<not> occurs_ci ''flying'' capitals_example" by code_simp
  show ?thesis
    using example_tables_outside_ascii example_themes example_emotions capitals_example_themes
      capitals_example_emotions mt me a b c d h s f
    by (intro conjI)
qed

lemma local_result_keys:
  "keys (analyzeDreamLocally tables now dream)
     = [''emotions'', ''themes'', ''interpretation'', ''symbols'', ''timestamp'']"
  by (simp add: analyzeDreamLocally_def Let_def)

text \<open>
  Claim C10, evaluated on the code. For the text "I was flying over a beautiful landscape
  and felt free" the local analysis returns an object with the properties \<open>emotions\<close>,
  \<open>themes\<close>, \<open>interpretation\<close>, \<open>symbols\<close> and \<open>timestamp\<close>, and no \<open>confidence\<close>;
  the gateway, answering the same text from a complete upstream analysis, returns data
  with these five properties and \<open>confidence\<close>.
\<close>

theorem local_result_lacks_confidence:
  "keys (analyzeDreamLocally example_tables 1 (units example_dream))
     = [''emotions'', ''themes'', ''interpretation'', ''symbols'', ''timestamp''] \<and>
   field ''confidence'' (analyzeDreamLocally example_tables 1 (units example_dream)) = None \<and>
   status (fst (analyzeDream (example_env complete_text)
                  (Some (JObj [(''dreamText'', JStr example_dream)])))) = 200 \<and>
   map_option keys
     (field ''data''
        (body (fst (analyzeDream (example_env complete_text)
                      (Some (JObj [(''dreamText'', JStr example_dream)]))))))
     = Some [''emotions'', ''themes'', ''interpretation'', ''symbols'', ''confidence'',
             ''timestamp''] \<and>
   map_option (field ''confidence'')
     (field ''data''
        (body (fst (analyzeDream (example_env complete_text)
                      (Some (JObj [(''dreamText'', JStr example_dream)]))))))
     = Some (Some (JNum (1 / 2)))"
proof -
  have v: "DreamAnalysisSchema_safeParse (type_message (example_env complete_text))
      (Some (JObj [(''dreamText'', JStr example_dream)])) = Inr example_dream"
    by (simp add: DreamAnalysisSchema_safeParse_def dreamText_issues_def optional_issues_def
        example_dream_def)
  have env: "requestId (example_env complete_text) = ''req_1_abc''"
    "date_now (example_env complete_text) = 1"
    "json_parse (example_env complete_text) = example_parse"
    by (simp_all add: example_env_def)
  have p: "example_parse complete_text =
     Some (JObj [(''emotions'', jstrs [''joy'']), (''themes'', jstrs [''flying'']),
                       (''interpretation'', JStr ''A dream of freedom.''),
                       (''symbols'', jstrs [''landscape'']), (''confidence'', JNum (1 / 2))])"
    by (simp add: example_parse_def)
  have c: "create_completion (example_env complete_text) m = Completion [Some complete_text]" for m
    by (simp add: example_env_def)
  have a: "analysis_safeParse (JObj [(''emotions'', jstrs [''joy'']), (''themes'', jstrs [''flying'']),
                       (''interpretation'', JStr ''A dream of freedom.''),
                       (''symbols'', jstrs [''landscape'']), (''confidence'', JNum (1 / 2))])
     = Some [(''emotions'', jstrs [''joy'']), (''themes'', jstrs [''flying'']),
                       (''interpretation'', JStr ''A dream of freedom.''),
                       (''symbols'', jstrs [''landscape'']), (''confidence'', JNum (1 / 2))]"
    by (simp add: analysis_safeParse_def jstrs_def)
  have api: "analyzeDream (example_env complete_text)
                  (Some (JObj [(''dreamText'', JStr example_dream)]))
      = (\<lparr>status = 200, body = JObj [(''success'', JBool True),
             (''data'', JObj [(''emotions'', jstrs [''joy'']), (''themes'', jstrs [''flying'']),
                       (''interpretation'', JStr ''A dream of freedom.''),
                       (''symbols'', jstrs [''landscape'']), (''confidence'', JNum (1 / 2)),
                       (''timestamp'', JNum 1)]),
             (''requestId'', JStr ''req_1_abc'')]\<rparr>,
         [''Analyze this dream: '' @ example_dream])"
  proof -
    have ok: "DreamAnalysisResponseSchema_ok
        (JObj [(''success'', JBool True),
             (''data'', JObj [(''emotions'', jstrs [''joy'']), (''themes'', jstrs [''flying'']),
                       (''interpretation'', JStr ''A dream of freedom.''),
                       (''symbols'', jstrs [''landscape'']), (''confidence'', JNum (1 / 2)),
                       (''timestamp'', JNum 1)]),
             (''requestId'', JStr ''req_1_abc'')])"
      by (simp add: DreamAnalysisResponseSchema_ok_def data_ok_def jstrs_def)
    show ?thesis
      unfolding analyzeDream_def v by (simp add: c env p a ok Let_def)
  qed
  show ?thesis
    unfolding api by (simp add: analyzeDreamLocally_def Let_def)
qed

end
